(* ===== verification/Prelude.thy ===== *)
theory Prelude
  imports Main "HOL-Library.Word" "HOL-Library.AList" "HOL-Library.Char_ord"
    "HOL-Library.List_Lexorder" "HOL-Library.Sublist" "HOL-Library.Multiset"
begin

text \<open>
  Shared vocabulary of the development: results that may fail, Go byte strings, decimal
  printing and Go maps, with the lemmas that the component theories use through the simplifier
  or through the collections declared here.

  A Go \<open>string\<close> or \<open>[]byte\<close> is a sequence of bytes; both are \<open>string\<close> here, a list of
  \<open>char\<close>, whose order (\<open>HOL-Library.Char_ord\<close>, \<open>HOL-Library.List_Lexorder\<close>) is Go's bytewise
  order, so that \<open>sort\<close> is \<open>sort.Strings\<close>.
\<close>

named_theorems fault_free \<open>an operation called in a well-formed state does not panic\<close>
named_theorems inv_pres \<open>an operation keeps the invariant of its component\<close>

section \<open>Results that may fail\<close>

text \<open>
  \<open>Inl e\<close> is a failure (a returned \<open>error\<close>, or a panic where the theory says so), \<open>Inr x\<close> a
  normal return. \<open>bindR\<close> is Go's \<open>if err != nil { return err }\<close>.
\<close>

definition bindR :: "'e + 'a \<Rightarrow> ('a \<Rightarrow> 'e + 'b) \<Rightarrow> 'e + 'b" where
  "bindR r f = (case r of Inl e \<Rightarrow> Inl e | Inr x \<Rightarrow> f x)"

lemma bindR_Inl [simp]: "bindR (Inl e) f = Inl e"
  by (simp add: bindR_def)

lemma bindR_Inr [simp]: "bindR (Inr x) f = f x"
  by (simp add: bindR_def)

lemma bindR_cong [fundef_cong]:
  "r = r' \<Longrightarrow> (\<And>x. r' = Inr x \<Longrightarrow> f x = f' x) \<Longrightarrow> bindR r f = bindR r' f'"
  by (simp add: bindR_def split: sum.splits)

lemma bindR_eq_Inr [simp]: "bindR r f = Inr y \<longleftrightarrow> (\<exists>x. r = Inr x \<and> f x = Inr y)"
  by (cases r) auto

lemma bindR_eq_Inl: "bindR r f = Inl e \<longleftrightarrow> r = Inl e \<or> (\<exists>x. r = Inr x \<and> f x = Inl e)"
  by (cases r) auto

lemma bindR_assoc: "bindR (bindR r f) g = bindR r (\<lambda>x. bindR (f x) g)"
  by (cases r) auto

definition is_err :: "'e + 'a \<Rightarrow> bool" where
  "is_err r = (case r of Inl e \<Rightarrow> True | Inr x \<Rightarrow> False)"

lemma is_err_simps [simp]: "is_err (Inl e)" "\<not> is_err (Inr x)"
  by (simp_all add: is_err_def)

section \<open>Bytes and byte strings\<close>

abbreviation LF :: char where "LF \<equiv> CHR 0x0A"
abbreviation CR :: char where "CR \<equiv> CHR 0x0D"
abbreviation DQUOTE :: char where "DQUOTE \<equiv> CHR 0x22"
abbreviation BACKSLASH :: char where "BACKSLASH \<equiv> CHR 0x5C"

text \<open>\<open>strings.HasPrefix\<close> / \<open>bytes.HasPrefix\<close>, and \<open>bytes.IndexByte\<close> with its -1 as \<open>None\<close>.\<close>

definition hasPrefix :: "string \<Rightarrow> string \<Rightarrow> bool" where
  "hasPrefix s p = (take (length p) s = p)"

lemma hasPrefix_append [simp]: "hasPrefix (p @ s) p"
  by (simp add: hasPrefix_def)

lemma hasPrefix_iff: "hasPrefix s p \<longleftrightarrow> (\<exists>r. s = p @ r)"
  by (metis append_eq_conv_conj append_take_drop_id hasPrefix_def)

lemma hasPrefix_singleton [simp]: "hasPrefix s [c] \<longleftrightarrow> s \<noteq> [] \<and> hd s = c"
  by (cases s) (auto simp: hasPrefix_def)

fun indexByte :: "char \<Rightarrow> string \<Rightarrow> nat option" where
  "indexByte c [] = None"
| "indexByte c (x # xs) = (if x = c then Some 0 else map_option Suc (indexByte c xs))"

lemma indexByte_None [simp]: "indexByte c s = None \<longleftrightarrow> c \<notin> set s"
  by (induction s) auto

lemma indexByte_absent [simp]: "c \<notin> set s \<Longrightarrow> indexByte c s = None"
  by simp

lemma indexByte_split:
  "indexByte c s = Some i \<Longrightarrow> s = take i s @ c # drop (Suc i) s \<and> c \<notin> set (take i s) \<and> i < length s"
  by (induction s arbitrary: i) (auto split: if_splits)

lemma indexByte_append: "c \<notin> set p \<Longrightarrow> indexByte c (p @ c # s) = Some (length p)"
  by (induction p) auto

text \<open>\<open>strings.ReplaceAll\<close> for a one-byte pattern: every occurrence, left to right, no overlap.\<close>

definition replaceByte :: "char \<Rightarrow> string \<Rightarrow> string \<Rightarrow> string" where
  "replaceByte c r s = concat (map (\<lambda>x. if x = c then r else [x]) s)"

lemma replaceByte_simps [simp]:
  "replaceByte c r [] = []"
  "replaceByte c r (x # xs) = (if x = c then r else [x]) @ replaceByte c r xs"
  by (simp_all add: replaceByte_def)

lemma replaceByte_append: "replaceByte c r (s @ t) = replaceByte c r s @ replaceByte c r t"
  by (simp add: replaceByte_def)

text \<open>A text splits in one way only at the first occurrence of a byte.\<close>

lemma split_first:
  assumes "a @ x # b = a' @ x # b'" "x \<notin> set a" "x \<notin> set a'"
  shows "a = a' \<and> b = b'"
  using assms
proof (induction a arbitrary: a')
  case Nil
  then show ?case by (cases a') auto
next
  case (Cons y a)
  then show ?case by (cases a') auto
qed

section \<open>Decimal printing\<close>

text \<open>\<open>%d\<close> of \<open>fmt\<close> for naturals and integers.\<close>

fun show_nat :: "nat \<Rightarrow> string" where
  "show_nat n = (if n < 10 then [char_of (48 + n)] else show_nat (n div 10) @ [char_of (48 + n mod 10)])"

declare show_nat.simps [simp del]

lemma show_nat_small: "n < 10 \<Longrightarrow> show_nat n = [char_of (48 + n)]"
  by (subst show_nat.simps) simp

lemma show_nat_step: "\<not> n < 10 \<Longrightarrow> show_nat n = show_nat (n div 10) @ [char_of (48 + n mod 10)]"
  by (subst show_nat.simps) simp

definition show_int :: "int \<Rightarrow> string" where
  "show_int i = (if i < 0 then CHR ''-'' # show_nat (nat (- i)) else show_nat (nat i))"

definition digit_val :: "char \<Rightarrow> nat" where
  "digit_val c = of_char c - 48"

definition read_nat :: "string \<Rightarrow> nat" where
  "read_nat s = foldl (\<lambda>a c. 10 * a + digit_val c) 0 s"

definition is_digit :: "char \<Rightarrow> bool" where
  "is_digit c = (48 \<le> (of_char c :: nat) \<and> (of_char c :: nat) < 58)"

lemma digit_val_char_of [simp]: "n < 10 \<Longrightarrow> digit_val (char_of (48 + n)) = n"
  by (simp add: digit_val_def)

lemma is_digit_char_of [simp]: "(n::nat) < 10 \<Longrightarrow> is_digit (char_of (48 + n))"
  by (simp add: is_digit_def)

lemma read_nat_snoc [simp]: "read_nat (s @ [c]) = 10 * read_nat s + digit_val c"
  by (simp add: read_nat_def)

lemma read_nat_append: "read_nat (s @ t) = read_nat s * 10 ^ length t + read_nat t"
  by (induction t rule: rev_induct) (simp_all add: read_nat_def algebra_simps)

lemma read_show_nat [simp]: "read_nat (show_nat n) = n"
proof (induction n rule: show_nat.induct)
  case (1 n)
  show ?case
  proof (cases "n < 10")
    case True
    then show ?thesis by (simp add: show_nat.simps read_nat_def)
  next
    case False
    with 1 show ?thesis by (subst show_nat.simps) simp
  qed
qed

lemma show_nat_inject [simp]: "show_nat m = show_nat n \<longleftrightarrow> m = n"
  by (metis read_show_nat)

lemma show_nat_digits: "c \<in> set (show_nat n) \<Longrightarrow> is_digit c"
proof (induction n arbitrary: c rule: show_nat.induct)
  case (1 n)
  then show ?case by (subst (asm) (2) show_nat.simps) (auto split: if_splits)
qed

lemma show_nat_no [simp]: "\<not> is_digit c \<Longrightarrow> c \<notin> set (show_nat n)"
  using show_nat_digits by blast

lemma show_nat_nonempty [simp]: "show_nat n \<noteq> []"
  by (subst show_nat.simps) simp

section \<open>Go maps\<close>

text \<open>
  A Go map that the code iterates over is an association list with distinct keys, in the order
  in which an iteration happens to visit it: \<open>map_of\<close> reads it, \<open>AList.update\<close> writes it. Go
  leaves the iteration order open; where it could matter, a lemma shows it does not. A map that
  is only read and written is a HOL map.
\<close>

abbreviation wf_map :: "('k \<times> 'v) list \<Rightarrow> bool" where
  "wf_map m \<equiv> distinct (map fst m)"

lemma wf_map_update [simp]: "wf_map m \<Longrightarrow> wf_map (AList.update k v m)"
  by (simp add: distinct_update)

lemma map_of_update [simp]: "map_of (AList.update k v m) = (map_of m)(k \<mapsto> v)"
  by (simp add: update_conv')

lemma keys_update [simp]: "fst ` set (AList.update k v m) = insert k (fst ` set m)"
  using dom_update [of k v m] by (simp add: dom_map_of_conv_image_fst)

lemma wf_map_perm_map_of:
  "wf_map m \<Longrightarrow> mset m = mset m' \<Longrightarrow> map_of m = map_of m'"
  by (metis map_of_inject_set mset_eq_imp_distinct_iff mset_eq_setD mset_map)

section \<open>Lists\<close>

lemma filter_neq_id [simp]: "x \<notin> set xs \<Longrightarrow> filter (\<lambda>y. x \<noteq> y) xs = xs"
  by (induction xs) auto

lemma length_filter_neq: "distinct xs \<Longrightarrow> x \<in> set xs \<Longrightarrow> Suc (length (filter (\<lambda>y. x \<noteq> y) xs)) = length xs"
  by (induction xs) auto

lemma length_filter_neq_less: "x \<in> set xs \<Longrightarrow> length (filter (\<lambda>y. x \<noteq> y) xs) < length xs"
  by (induction xs) (auto simp: le_imp_less_Suc)

lemma length_filter_neq_iff: "length (filter (\<lambda>y. x \<noteq> y) xs) \<noteq> length xs \<longleftrightarrow> x \<in> set xs"
  by (metis filter_neq_id length_filter_neq_less less_irrefl)


section \<open>Runs of a labelled step relation\<close>

text \<open>
  Components whose operations interleave are step relations \<open>'s \<Rightarrow> 'e \<Rightarrow> 's \<Rightarrow> bool\<close>; a run
  performs a list of labels one after the other.
\<close>

inductive run :: "('s \<Rightarrow> 'e \<Rightarrow> 's \<Rightarrow> bool) \<Rightarrow> 's \<Rightarrow> 'e list \<Rightarrow> 's \<Rightarrow> bool" for step where
  run_Nil [intro, simp]: "run step s [] s"
| run_snoc: "run step s es t \<Longrightarrow> step t e u \<Longrightarrow> run step s (es @ [e]) u"

inductive_simps run_Nil_iff [simp]: "run step s [] t"
inductive_cases run_snocE: "run step s (es @ [e]) u"

lemma run_snoc_iff: "run step s (es @ [e]) u \<longleftrightarrow> (\<exists>t. run step s es t \<and> step t e u)"
  by (auto elim: run_snocE intro: run_snoc)

lemma run_append_iff: "run step s (es @ fs) u \<longleftrightarrow> (\<exists>t. run step s es t \<and> run step t fs u)"
proof (induction fs arbitrary: u rule: rev_induct)
  case Nil
  then show ?case by simp
next
  case (snoc f fs)
  then show ?case by (auto simp: run_snoc_iff append_assoc [symmetric] simp del: append_assoc)
qed

lemma run_single [simp]: "run step s [e] u \<longleftrightarrow> step s e u"
  using run_snoc_iff [of step s "[]" e u] by simp

lemma run_Cons_iff: "run step s (e # es) u \<longleftrightarrow> (\<exists>t. step s e t \<and> run step t es u)"
  using run_append_iff [of step s "[e]" es u] by simp

text \<open>
  An invariant of runs: it holds at the start and every step whose label is allowed keeps it.
\<close>

lemma run_invariant:
  assumes "run step s es t" and "I s" and "\<And>t e u. I t \<Longrightarrow> step t e u \<Longrightarrow> e \<in> set es \<Longrightarrow> I u"
  shows "I t"
  using assms
proof (induction rule: run.induct)
  case (run_snoc s es t e u)
  have "I t" by (rule run_snoc.IH) (use run_snoc.prems in auto)
  then show ?case by (rule run_snoc.prems(2)) (use run_snoc.hyps in auto)
qed simp

end
