(* ===== verification/Chan.thy ===== *)
theory Chan
  imports Prelude
begin

text \<open>
  Go channels of capacity one (\<open>make(chan T, 1)\<close>), as \<open>pkg/queue\<close> uses them: a heap of
  channels, allocation, send, close, the non-blocking drain of a \<open>select\<close> with a \<open>default\<close>
  branch, and the client's receive. What Go answers with a panic, or by blocking the sender, is
  a value of \<open>go_fault\<close>.
\<close>

record 'a chan =
  cbuf :: "'a option"
  cclosed :: bool

lemma chan_update_both [simp]: "r\<lparr>cbuf := b, cclosed := c\<rparr> = \<lparr>cbuf = b, cclosed = c\<rparr>"
  by (cases r) simp

type_synonym chid = nat

datatype go_fault =
    SendOnClosed       \<comment> \<open>panic: send on closed channel\<close>
  | CloseOfClosed      \<comment> \<open>panic: close of closed channel\<close>
  | SendBlocks         \<comment> \<open>send on a full channel: the goroutine waits, holding its locks\<close>
  | IndexOutOfRange    \<comment> \<open>panic: index out of range\<close>
  | NilDereference     \<comment> \<open>panic: nil pointer or nil channel\<close>

definition chan_make :: "'a chan list \<Rightarrow> chid \<times> 'a chan list" where
  "chan_make cs = (length cs, cs @ [\<lparr>cbuf = None, cclosed = False\<rparr>])"

definition chan_send :: "chid \<Rightarrow> 'a \<Rightarrow> 'a chan list \<Rightarrow> go_fault + 'a chan list" where
  "chan_send c v cs =
     (if length cs \<le> c then Inl NilDereference
      else if cclosed (cs ! c) then Inl SendOnClosed
      else if cbuf (cs ! c) \<noteq> None then Inl SendBlocks
      else Inr (cs[c := (cs ! c)\<lparr>cbuf := Some v\<rparr>]))"

definition chan_close :: "chid \<Rightarrow> 'a chan list \<Rightarrow> go_fault + 'a chan list" where
  "chan_close c cs =
     (if length cs \<le> c then Inl NilDereference
      else if cclosed (cs ! c) then Inl CloseOfClosed
      else Inr (cs[c := (cs ! c)\<lparr>cclosed := True\<rparr>]))"

text \<open>
  \<open>select { case <-ch: default: }\<close>: takes a buffered value away; on a closed or empty channel
  it changes nothing.
\<close>

definition chan_drain :: "chid \<Rightarrow> 'a chan list \<Rightarrow> 'a chan list" where
  "chan_drain c cs = (if length cs \<le> c then cs else cs[c := (cs ! c)\<lparr>cbuf := None\<rparr>])"

text \<open>
  The client's receive: the buffered value, else the zero value of a closed channel, else it
  blocks (\<open>None\<close>).
\<close>

definition chan_recv :: "'a \<Rightarrow> chid \<Rightarrow> 'a chan list \<Rightarrow> ('a \<times> 'a chan list) option" where
  "chan_recv zero c cs =
     (if length cs \<le> c then None
      else (case cbuf (cs ! c) of
              Some v \<Rightarrow> Some (v, cs[c := (cs ! c)\<lparr>cbuf := None\<rparr>])
            | None \<Rightarrow> if cclosed (cs ! c) then Some (zero, cs) else None))"

text \<open>
  \<open>trySend\<close>: drain, then send. Senders hold the queue's mutex, so no value can arrive between
  the two; a receiver that runs in between finds the buffer empty (after the drain) or takes the
  old value (before it), and both are the receive before or after this step.
\<close>

definition trySend :: "chid \<Rightarrow> 'a \<Rightarrow> 'a chan list \<Rightarrow> go_fault + 'a chan list" where
  "trySend c v cs = chan_send c v (chan_drain c cs)"

lemma trySend_eq:
  "trySend c v cs =
     (if length cs \<le> c then Inl NilDereference
      else if cclosed (cs ! c) then Inl SendOnClosed
      else Inr (cs[c := (cs ! c)\<lparr>cbuf := Some v\<rparr>]))"
  by (simp add: trySend_def chan_send_def chan_drain_def)

text \<open>A drained channel never makes its sender wait: the reason \<open>trySend\<close> is safe under the lock.\<close>

lemma trySend_never_blocks: "trySend c v cs \<noteq> Inl SendBlocks"
  by (simp add: trySend_eq)

lemma trySend_ok [fault_free]:
  "c < length cs \<Longrightarrow> \<not> cclosed (cs ! c) \<Longrightarrow> trySend c v cs = Inr (cs[c := (cs ! c)\<lparr>cbuf := Some v\<rparr>])"
  by (simp add: trySend_eq)

lemma chan_close_ok [fault_free]:
  "c < length cs \<Longrightarrow> \<not> cclosed (cs ! c) \<Longrightarrow> chan_close c cs = Inr (cs[c := (cs ! c)\<lparr>cclosed := True\<rparr>])"
  by (simp add: chan_close_def)

lemma chan_recv_Some:
  "chan_recv z c cs = Some (v, cs') \<Longrightarrow>
     c < length cs \<and> length cs' = length cs \<and> (\<forall>i. cclosed (cs' ! i) = cclosed (cs ! i)) \<and>
     (\<forall>i. i \<noteq> c \<longrightarrow> cs' ! i = cs ! i) \<and> cbuf (cs' ! c) = None"
  by (auto simp: chan_recv_def nth_list_update split: if_splits option.splits)

end
