(* ===== verification/Queue.thy ===== *)
theory Queue
  imports Chan
begin

text \<open>
  \<open>pkg/queue/queue.go\<close>: the admission queue of one upstream. A \<open>Queue\<close> admits at most \<open>max\<close>
  holders at a time, lets at most \<open>maxQueued\<close> wait and rejects the rest; a client learns what
  became of it from its handle's channel. The theory holds the data, every operation as written
  (each runs with the mutex held, so it is one atomic step), and the well-formedness invariant
  with the proof that no operation panics or blocks while it holds the mutex.
\<close>

section \<open>Data\<close>

text \<open>\<open>Status\<close>; its field \<open>Max\<close> is \<open>Total\<close> here (\<open>Max\<close> is a constant of HOL).\<close>

record Status =
  Index :: int
  Total :: int
  Ok :: bool
  Full :: bool

definition zeroStatus :: Status where
  "zeroStatus = \<lparr>Index = 0, Total = 0, Ok = False, Full = False\<rparr>"

text \<open>
  \<open>queueItem\<close> has the channel as its only field and is the channel's address. Go's \<open>int\<close> is
  \<open>int\<close>: the only arithmetic is \<open>len(q.active) - q.max\<close> plus a length, and \<open>Status_in_range\<close>
  below bounds it.
\<close>

type_synonym queueItem = chid

record Queue =
  qmax :: int
  active :: "queueItem list"
  queued :: "queueItem list"
  maxQueued :: int

text \<open>
  \<open>internalHandle\<close>. Its field \<open>q\<close> is the queue of the enclosing \<open>qworld\<close>; a client's \<open>Handle\<close>
  has the same channel and the handle's position in \<open>handles\<close> for its address.
\<close>

record internalHandle =
  hch :: chid
  released :: bool

type_synonym hid = nat

text \<open>A queue with what its pointers reach: the channels and the handles it has made.\<close>

record qworld =
  que :: Queue
  chans :: "Status chan list"
  handles :: "internalHandle list"

section \<open>Operations\<close>

definition New :: "int \<Rightarrow> int \<Rightarrow> qworld" where
  "New mx mq = \<lparr>que = \<lparr>qmax = mx, active = [], queued = [], maxQueued = mq\<rparr>, chans = [], handles = []\<rparr>"

definition GetMax :: "qworld \<Rightarrow> int" where "GetMax w = qmax (que w)"
definition GetMaxQueued :: "qworld \<Rightarrow> int" where "GetMaxQueued w = maxQueued (que w)"
definition ActiveLen :: "qworld \<Rightarrow> int" where "ActiveLen w = int (length (active (que w)))"
definition QueuedLen :: "qworld \<Rightarrow> int" where "QueuedLen w = int (length (queued (que w)))"

definition SetMax :: "int \<Rightarrow> int \<Rightarrow> qworld \<Rightarrow> qworld" where
  "SetMax mx mq w = w\<lparr>que := (que w)\<lparr>qmax := mx, maxQueued := mq\<rparr>\<rparr>"

text \<open>The room test of \<open>Acquire\<close> and of the promotion loop; \<open>max = 0\<close> means no limit.\<close>

definition has_room :: "Queue \<Rightarrow> bool" where
  "has_room q \<longleftrightarrow> int (length (active q)) < qmax q \<or> qmax q = 0"

definition makeHandle :: "chid \<Rightarrow> qworld \<Rightarrow> hid \<times> qworld" where
  "makeHandle c w = (length (handles w), w\<lparr>handles := handles w @ [\<lparr>hch = c, released = False\<rparr>]\<rparr>)"

definition Acquire :: "qworld \<Rightarrow> go_fault + hid \<times> qworld" where
  "Acquire w =
     (let q = que w; (ch, cs) = chan_make (chans w);
          r = (if has_room q then
                 bindR (chan_send ch \<lparr>Index = 0, Total = 0, Ok = True, Full = False\<rparr> cs) (\<lambda>cs1.
                 bindR (chan_close ch cs1) (\<lambda>cs2.
                   Inr (w\<lparr>que := q\<lparr>active := active q @ [ch]\<rparr>, chans := cs2\<rparr>)))
               else if maxQueued q > 0 \<and> int (length (queued q)) \<ge> maxQueued q then
                 bindR (chan_send ch \<lparr>Index = 0, Total = 0, Ok = False, Full = True\<rparr> cs) (\<lambda>cs1.
                 bindR (chan_close ch cs1) (\<lambda>cs2. Inr (w\<lparr>chans := cs2\<rparr>)))
               else
                 let q1 = q\<lparr>queued := queued q @ [ch]\<rparr>;
                     surplus = int (length (active q1)) - qmax q1
                 in bindR (chan_send ch \<lparr>Index = surplus + int (length (queued q1)) - 1,
                                         Total = surplus + int (length (queued q1)),
                                         Ok = False, Full = False\<rparr> cs) (\<lambda>cs1.
                    Inr (w\<lparr>que := q1, chans := cs1\<rparr>)))
      in bindR r (\<lambda>w1. Inr (makeHandle ch w1)))"

text \<open>Move the head of the waiting list to the active list and tell it so.\<close>

definition popHead :: "qworld \<Rightarrow> go_fault + qworld" where
  "popHead w =
     (case queued (que w) of
        [] \<Rightarrow> Inl IndexOutOfRange
      | head # rest \<Rightarrow>
          bindR (trySend head \<lparr>Index = 0, Total = 0, Ok = True, Full = False\<rparr> (chans w)) (\<lambda>cs1.
          bindR (chan_close head cs1) (\<lambda>cs2.
            Inr (w\<lparr>que := (que w)\<lparr>active := active (que w) @ [head], queued := rest\<rparr>, chans := cs2\<rparr>))))"

text \<open>\<open>broadcastStatus\<close>: the loop over \<open>q.queued\<close>, with its index \<open>i\<close>.\<close>

fun broadcast_loop :: "int \<Rightarrow> int \<Rightarrow> nat \<Rightarrow> queueItem list \<Rightarrow> Status chan list \<Rightarrow> go_fault + Status chan list" where
  "broadcast_loop surplus tot i [] cs = Inr cs"
| "broadcast_loop surplus tot i (c # items) cs =
     bindR (trySend c \<lparr>Index = surplus + int i, Total = tot, Ok = False, Full = False\<rparr> cs)
       (broadcast_loop surplus tot (Suc i) items)"

definition broadcastStatus :: "qworld \<Rightarrow> go_fault + qworld" where
  "broadcastStatus w =
     (let q = que w; surplus = int (length (active q)) - qmax q
      in bindR (broadcast_loop surplus (surplus + int (length (queued q))) 0 (queued q) (chans w))
           (\<lambda>cs. Inr (w\<lparr>chans := cs\<rparr>)))"

text \<open>The promotion loop of \<open>releaseFromHandle\<close>; each round takes one item off \<open>q.queued\<close>.\<close>

function promote :: "qworld \<Rightarrow> go_fault + qworld" where
  "promote w = (if queued (que w) \<noteq> [] \<and> has_room (que w) then bindR (popHead w) promote else Inr w)"
  by pat_completeness auto
termination
  by (relation "measure (\<lambda>w. length (queued (que w)))") (auto simp: popHead_def split: list.splits)

declare promote.simps [simp del]

text \<open>
  \<open>releaseFromHandle\<close>: a waiting handle leaves the waiting list and the others hear their new
  positions; otherwise the handle leaves the active list (where it may not be: a rejected handle
  is in neither), waiting clients move up while there is room, and the rest hear their positions.
\<close>

definition releaseFromHandle :: "internalHandle \<Rightarrow> qworld \<Rightarrow> go_fault + qworld" where
  "releaseFromHandle h w =
     (let q = que w; newList = filter (\<lambda>item. hch h \<noteq> item) (queued q)
      in if length newList \<noteq> length (queued q)
         then broadcastStatus (w\<lparr>que := q\<lparr>queued := newList\<rparr>\<rparr>)
         else let newList = filter (\<lambda>item. hch h \<noteq> item) (active q)
              in bindR (promote (w\<lparr>que := q\<lparr>active := newList\<rparr>\<rparr>)) broadcastStatus)"

text \<open>
  \<open>internalHandle.release\<close>, called by \<open>Handle.Release\<close> and, for a handle that became garbage,
  by the cleanup that \<open>makeHandle\<close> registers.
\<close>

definition Release :: "hid \<Rightarrow> qworld \<Rightarrow> go_fault + qworld" where
  "Release h w =
     (if length (handles w) \<le> h then Inl NilDereference
      else if released (handles w ! h) then Inr w
      else let h' = (handles w ! h)\<lparr>released := True\<rparr>
           in releaseFromHandle h' (w\<lparr>handles := (handles w)[h := h']\<rparr>))"

text \<open>The client's \<open><-handle.C\<close>.\<close>

definition Recv :: "hid \<Rightarrow> qworld \<Rightarrow> (Status \<times> qworld) option" where
  "Recv h w =
     (if length (handles w) \<le> h then None
      else map_option (\<lambda>(st, cs). (st, w\<lparr>chans := cs\<rparr>)) (chan_recv zeroStatus (hch (handles w ! h)) (chans w)))"


section \<open>Well-formedness\<close>

text \<open>
  Handle \<open>i\<close> owns channel \<open>i\<close>; nobody is listed twice; the channel of an active item is closed,
  that of a waiting item open; a released handle is in no list; an unreleased handle with an
  open channel is waiting; a buffered value of a waiting client is a position, that of an active
  one its admission.
\<close>

definition inv_lists :: "qworld \<Rightarrow> bool" where
  "inv_lists w \<longleftrightarrow>
     map hch (handles w) = [0..<length (chans w)] \<and>
     distinct (active (que w) @ queued (que w)) \<and>
     (\<forall>c \<in> set (active (que w)). c < length (chans w) \<and> cclosed (chans w ! c) \<and> \<not> released (handles w ! c)) \<and>
     (\<forall>c \<in> set (queued (que w)). c < length (chans w) \<and> \<not> cclosed (chans w ! c) \<and> \<not> released (handles w ! c))"

definition inv_open :: "qworld \<Rightarrow> bool" where
  "inv_open w \<longleftrightarrow>
     (\<forall>c < length (chans w). \<not> cclosed (chans w ! c) \<longrightarrow> \<not> released (handles w ! c) \<longrightarrow> c \<in> set (queued (que w)))"

definition inv_mail :: "qworld \<Rightarrow> bool" where
  "inv_mail w \<longleftrightarrow>
     (\<forall>c \<in> set (queued (que w)). \<forall>st. cbuf (chans w ! c) = Some st \<longrightarrow> \<not> Ok st \<and> \<not> Full st) \<and>
     (\<forall>c \<in> set (active (que w)). \<forall>st. cbuf (chans w ! c) = Some st \<longrightarrow> Ok st \<and> \<not> Full st)"

definition queue_inv :: "qworld \<Rightarrow> bool" where
  "queue_inv w \<longleftrightarrow> inv_lists w \<and> inv_open w \<and> inv_mail w"

lemmas queue_inv_defs = queue_inv_def inv_lists_def inv_open_def inv_mail_def

lemma queue_invD:
  assumes "queue_inv w"
  shows "length (handles w) = length (chans w)"
    and "h < length (chans w) \<Longrightarrow> hch (handles w ! h) = h"
    and "distinct (active (que w))" "distinct (queued (que w))"
    and "set (active (que w)) \<inter> set (queued (que w)) = {}"
    and "c \<in> set (active (que w)) \<Longrightarrow> c < length (chans w) \<and> cclosed (chans w ! c) \<and> \<not> released (handles w ! c)"
    and "c \<in> set (queued (que w)) \<Longrightarrow> c < length (chans w) \<and> \<not> cclosed (chans w ! c) \<and> \<not> released (handles w ! c)"
proof -
  have m: "map hch (handles w) = [0..<length (chans w)]" using assms by (simp add: queue_inv_def inv_lists_def)
  then show l: "length (handles w) = length (chans w)" by (metis length_map length_upt diff_zero)
  show "hch (handles w ! h) = h" if "h < length (chans w)"
  proof -
    have "hch (handles w ! h) = map hch (handles w) ! h" using that l by simp
    also have "\<dots> = [0..<length (chans w)] ! h" by (simp only: m)
    also have "\<dots> = h" using that by simp
    finally show ?thesis .
  qed
qed (use assms in \<open>auto simp: queue_inv_def inv_lists_def\<close>)

lemma New_inv [inv_pres]: "queue_inv (New mx mq)"
  by (simp add: queue_inv_defs New_def)

lemma SetMax_inv [inv_pres]: "queue_inv (SetMax mx mq w) = queue_inv w"
  by (simp add: queue_inv_defs SetMax_def)

subsection \<open>What the loops compute\<close>

lemma broadcast_loop_Inr:
  assumes "distinct items" and "\<forall>c \<in> set items. c < length cs \<and> \<not> cclosed (cs ! c)"
  shows "\<exists>cs'. broadcast_loop sp t i items cs = Inr cs' \<and> length cs' = length cs \<and>
    (\<forall>c. c \<notin> set items \<longrightarrow> cs' ! c = cs ! c) \<and>
    (\<forall>j < length items. cs' ! (items ! j) =
       (cs ! (items ! j))\<lparr>cbuf := Some \<lparr>Index = sp + int i + int j, Total = t, Ok = False, Full = False\<rparr>\<rparr>)"
  using assms
proof (induction items arbitrary: i cs)
  case Nil
  then show ?case by simp
next
  case (Cons c items)
  let ?cs = "cs[c := (cs ! c)\<lparr>cbuf := Some \<lparr>Index = sp + int i, Total = t, Ok = False, Full = False\<rparr>\<rparr>]"
  have "\<forall>d \<in> set items. d < length ?cs \<and> \<not> cclosed (?cs ! d)"
    using Cons.prems by (auto simp: nth_list_update)
  from Cons.IH [OF _ this, of "Suc i"] Cons.prems(1) obtain cs' where cs':
    "broadcast_loop sp t (Suc i) items ?cs = Inr cs'" "length cs' = length cs"
    "\<forall>d. d \<notin> set items \<longrightarrow> cs' ! d = ?cs ! d"
    "\<forall>j < length items. cs' ! (items ! j) =
       (?cs ! (items ! j))\<lparr>cbuf := Some \<lparr>Index = sp + int (Suc i) + int j, Total = t, Ok = False, Full = False\<rparr>\<rparr>"
    by auto
  have "cs' ! ((c # items) ! j) = (cs ! ((c # items) ! j))\<lparr>cbuf :=
      Some \<lparr>Index = sp + int i + int j, Total = t, Ok = False, Full = False\<rparr>\<rparr>"
    if "j < length (c # items)" for j
  proof (cases j)
    case 0
    with cs'(3) Cons.prems show ?thesis by simp
  next
    case (Suc k)
    with that Cons.prems(1) have "items ! k \<noteq> c" by auto
    with cs'(4) Suc that show ?thesis by (simp add: algebra_simps)
  qed
  moreover have "\<forall>d. d \<notin> set (c # items) \<longrightarrow> cs' ! d = cs ! d" using cs'(3) by simp
  ultimately show ?case using Cons.prems cs'(1,2) by (auto simp: trySend_ok)
qed


definition okStatus :: Status where
  "okStatus = \<lparr>Index = 0, Total = 0, Ok = True, Full = False\<rparr>"

text \<open>How many waiting clients the promotion loop admits.\<close>

definition vacancies :: "Queue \<Rightarrow> nat" where
  "vacancies q = (if qmax q = 0 then length (queued q)
                  else min (length (queued q)) (nat (qmax q - int (length (active q)))))"

lemma vacancies_le: "vacancies q \<le> length (queued q)"
  by (simp add: vacancies_def)

lemma vacancies_pos: "0 < vacancies q \<longleftrightarrow> queued q \<noteq> [] \<and> has_room q"
  by (auto simp: vacancies_def has_room_def)

lemma popHead_Inr:
  assumes "queued (que w) = c # rest" "c < length (chans w)" "\<not> cclosed (chans w ! c)"
  shows "popHead w = Inr (w\<lparr>que := (que w)\<lparr>active := active (que w) @ [c], queued := rest\<rparr>,
           chans := (chans w)[c := \<lparr>cbuf = Some okStatus, cclosed = True\<rparr>]\<rparr>)"
  using assms by (simp add: popHead_def trySend_ok chan_close_ok okStatus_def)

lemma promote_Inr:
  assumes "distinct (queued (que w))" and "\<forall>c \<in> set (queued (que w)). c < length (chans w) \<and> \<not> cclosed (chans w ! c)"
  shows "\<exists>w'. promote w = Inr w' \<and> handles w' = handles w \<and>
    que w' = (que w)\<lparr>active := active (que w) @ take (vacancies (que w)) (queued (que w)),
                    queued := drop (vacancies (que w)) (queued (que w))\<rparr> \<and>
    length (chans w') = length (chans w) \<and>
    (\<forall>c. chans w' ! c = (if c \<in> set (take (vacancies (que w)) (queued (que w)))
                        then \<lparr>cbuf = Some okStatus, cclosed = True\<rparr> else chans w ! c))"
  using assms
proof (induction w rule: promote.induct)
  case (1 w)
  show ?case
  proof (cases "queued (que w) \<noteq> [] \<and> has_room (que w)")
    case False
    then have "vacancies (que w) = 0" using vacancies_pos [of "que w"] by blast
    with False show ?thesis by (subst promote.simps) auto
  next
    case True
    then obtain c rest where q: "queued (que w) = c # rest" by (cases "queued (que w)") auto
    with "1.prems" have c: "c < length (chans w)" "\<not> cclosed (chans w ! c)" by auto
    define w1 where "w1 = w\<lparr>que := (que w)\<lparr>active := active (que w) @ [c], queued := rest\<rparr>,
        chans := (chans w)[c := \<lparr>cbuf = Some okStatus, cclosed = True\<rparr>]\<rparr>"
    have pop: "popHead w = Inr w1" unfolding w1_def by (rule popHead_Inr [OF q c])
    have v: "vacancies (que w) = Suc (vacancies (que w1))"
      using True q by (auto simp: vacancies_def w1_def has_room_def)
    have "promote w = promote w1" using True pop by (subst promote.simps) simp
    moreover have "distinct (queued (que w1))"
      "\<forall>d \<in> set (queued (que w1)). d < length (chans w1) \<and> \<not> cclosed (chans w1 ! d)"
      using "1.prems" q by (auto simp: w1_def nth_list_update)
    note "1.IH" [OF True pop this]
    moreover have "c \<notin> set rest" using "1.prems"(1) q by simp
    ultimately show ?thesis using q v c by (auto simp: w1_def nth_list_update dest: in_set_takeD)
  qed
qed


text \<open>The position message of the \<open>j\<close>-th waiting client.\<close>

definition position :: "Queue \<Rightarrow> nat \<Rightarrow> Status" where
  "position q j = (let surplus = int (length (active q)) - qmax q in
     \<lparr>Index = surplus + int j, Total = surplus + int (length (queued q)), Ok = False, Full = False\<rparr>)"

text \<open>
  Under a limit that a 64-bit \<open>int\<close> holds and that is not negative, and with lists that fit in
  memory, a position message is a 64-bit value: unbounded \<open>int\<close> loses nothing.
\<close>

lemma Status_in_range:
  assumes "0 \<le> qmax q" "qmax q < 2 ^ 63" "int (length (active q)) + int (length (queued q)) < 2 ^ 63"
    and "j \<le> length (queued q)"
  shows "- (2 ^ 63) \<le> Index (position q j)" "Index (position q j) < 2 ^ 63"
    and "- (2 ^ 63) \<le> Total (position q j)" "Total (position q j) < 2 ^ 63"
  using assms by (simp_all add: position_def Let_def)

lemma broadcastStatus_Inr:
  assumes "distinct (queued (que w))" and "\<forall>c \<in> set (queued (que w)). c < length (chans w) \<and> \<not> cclosed (chans w ! c)"
  shows "\<exists>w'. broadcastStatus w = Inr w' \<and> que w' = que w \<and> handles w' = handles w \<and>
    length (chans w') = length (chans w) \<and>
    (\<forall>c. c \<notin> set (queued (que w)) \<longrightarrow> chans w' ! c = chans w ! c) \<and>
    (\<forall>j < length (queued (que w)). chans w' ! (queued (que w) ! j) =
       (chans w ! (queued (que w) ! j))\<lparr>cbuf := Some (position (que w) j)\<rparr>)"
proof -
  let ?s = "int (length (active (que w))) - qmax (que w)"
  from broadcast_loop_Inr [OF assms, of ?s "?s + int (length (queued (que w)))" 0]
  obtain cs where "broadcast_loop ?s (?s + int (length (queued (que w)))) 0 (queued (que w)) (chans w) = Inr cs"
    "length cs = length (chans w)" "\<forall>c. c \<notin> set (queued (que w)) \<longrightarrow> cs ! c = chans w ! c"
    "\<forall>j < length (queued (que w)). cs ! (queued (que w) ! j) =
       (chans w ! (queued (que w) ! j))\<lparr>cbuf := Some (position (que w) j)\<rparr>"
    by (auto simp: position_def Let_def)
  then show ?thesis by (simp add: broadcastStatus_def Let_def)
qed

subsection \<open>The operations in closed form\<close>

text \<open>What \<open>releaseFromHandle\<close> does to the two lists.\<close>

definition drop_holder :: "chid \<Rightarrow> Queue \<Rightarrow> Queue" where
  "drop_holder h q =
     (if h \<in> set (queued q) then q\<lparr>queued := filter (\<lambda>c. h \<noteq> c) (queued q)\<rparr>
      else let q1 = q\<lparr>active := filter (\<lambda>c. h \<noteq> c) (active q)\<rparr>; k = vacancies q1
           in q1\<lparr>active := active q1 @ take k (queued q1), queued := drop k (queued q1)\<rparr>)"

lemma drop_holder_frame [simp]:
  "qmax (drop_holder h q) = qmax q" "maxQueued (drop_holder h q) = maxQueued q"
  by (simp_all add: drop_holder_def Let_def)

lemma drop_holder_lists:
  assumes "distinct (active q @ queued q)"
  shows "set (queued (drop_holder h q)) \<subseteq> set (queued q)"
    and "h \<notin> set (queued (drop_holder h q))" "h \<notin> set (active (drop_holder h q))"
    and "distinct (active (drop_holder h q) @ queued (drop_holder h q))"
    and "set (active (drop_holder h q)) \<union> set (queued (drop_holder h q)) = (set (active q) \<union> set (queued q)) - {h}"
    and "set (active q) - {h} \<subseteq> set (active (drop_holder h q))"
proof -
  show "set (queued (drop_holder h q)) \<subseteq> set (queued q)"
    by (auto simp: drop_holder_def Let_def dest: in_set_dropD)
  show "h \<notin> set (queued (drop_holder h q))"
    by (auto simp: drop_holder_def Let_def dest: in_set_dropD)
  show "h \<notin> set (active (drop_holder h q))"
    using assms by (auto simp: drop_holder_def Let_def dest: in_set_takeD)
  have td: "set (take k xs) \<union> set (drop k xs) = set xs" for k and xs :: "nat list"
    by (metis append_take_drop_id set_append)
  show "set (active (drop_holder h q)) \<union> set (queued (drop_holder h q)) = (set (active q) \<union> set (queued q)) - {h}"
    using assms by (auto simp: drop_holder_def Let_def Un_assoc td)
  show "set (active q) - {h} \<subseteq> set (active (drop_holder h q))"
    using assms by (auto simp: drop_holder_def Let_def)
  show "distinct (active (drop_holder h q) @ queued (drop_holder h q))"
  proof (cases "h \<in> set (queued q)")
    case True
    with assms show ?thesis by (auto simp: drop_holder_def)
  next
    case False
    define k where "k = vacancies (q\<lparr>active := filter (\<lambda>c. h \<noteq> c) (active q)\<rparr>)"
    have "distinct (filter (\<lambda>c. h \<noteq> c) (active q) @ take k (queued q) @ drop k (queued q))"
      using assms by auto
    then have "distinct ((filter (\<lambda>c. h \<noteq> c) (active q) @ take k (queued q)) @ drop k (queued q))"
      by (simp only: append_assoc)
    with False show ?thesis by (simp add: drop_holder_def Let_def k_def)
  qed
qed

text \<open>
  \<open>releaseFromHandle\<close> on two well-formed lists: it returns, the lists change by
  \<open>drop_holder\<close>, a client that moved up finds its admission in a closed channel, every client
  that still waits finds its position, and no other channel is touched.
\<close>

lemma releaseFromHandle_Inr:
  assumes "distinct (active (que w) @ queued (que w))"
    and "\<forall>c \<in> set (queued (que w)). c < length (chans w) \<and> \<not> cclosed (chans w ! c)"
  shows "\<exists>w'. releaseFromHandle hh w = Inr w' \<and> que w' = drop_holder (hch hh) (que w) \<and>
    handles w' = handles w \<and> length (chans w') = length (chans w) \<and>
    (\<forall>c \<in> set (queued (que w')). cclosed (chans w' ! c) = False) \<and>
    (\<forall>j < length (queued (que w')). cbuf (chans w' ! (queued (que w') ! j)) = Some (position (que w') j)) \<and>
    (\<forall>c. c \<notin> set (queued (que w')) \<longrightarrow>
       chans w' ! c = (if c \<in> set (queued (que w)) \<and> c \<in> set (active (que w'))
                       then \<lparr>cbuf = Some okStatus, cclosed = True\<rparr> else chans w ! c))"
proof (cases "hch hh \<in> set (queued (que w))")
  case True
  let ?w1 = "w\<lparr>que := (que w)\<lparr>queued := filter (\<lambda>c. hch hh \<noteq> c) (queued (que w))\<rparr>\<rparr>"
  have eq: "releaseFromHandle hh w = broadcastStatus ?w1"
    using length_filter_neq_less [OF True] by (simp add: releaseFromHandle_def Let_def)
  have q: "que ?w1 = drop_holder (hch hh) (que w)" using True by (simp add: drop_holder_def)
  have "distinct (queued (que ?w1))" "\<forall>c \<in> set (queued (que ?w1)). c < length (chans ?w1) \<and> \<not> cclosed (chans ?w1 ! c)"
    using assms by auto
  from broadcastStatus_Inr [OF this] obtain w' where w': "broadcastStatus ?w1 = Inr w'" "que w' = que ?w1"
    "handles w' = handles ?w1" "length (chans w') = length (chans ?w1)"
    "\<forall>c. c \<notin> set (queued (que ?w1)) \<longrightarrow> chans w' ! c = chans ?w1 ! c"
    "\<forall>j < length (queued (que ?w1)). chans w' ! (queued (que ?w1) ! j) =
       (chans ?w1 ! (queued (que ?w1) ! j))\<lparr>cbuf := Some (position (que ?w1) j)\<rparr>"
    by blast
  have "c \<notin> set (active (que w))" if "c \<in> set (queued (que w))" for c
    using assms(1) that by auto
  moreover have "cclosed (chans w' ! c) = False" if c: "c \<in> set (queued (que ?w1))" for c
  proof -
    obtain j where "j < length (queued (que ?w1))" "queued (que ?w1) ! j = c"
      using c by (meson in_set_conv_nth)
    with w'(6) have "cclosed (chans w' ! c) = cclosed (chans w ! c)" by auto
    with c assms(2) show ?thesis by auto
  qed
  moreover have "active (que w') = active (que w)" using w'(2) by simp
  ultimately show ?thesis using w' eq q by auto
next
  case False
  let ?w1 = "w\<lparr>que := (que w)\<lparr>active := filter (\<lambda>c. hch hh \<noteq> c) (active (que w))\<rparr>\<rparr>"
  let ?k = "vacancies (que ?w1)"
  have "distinct (queued (que ?w1))" "\<forall>c \<in> set (queued (que ?w1)). c < length (chans ?w1) \<and> \<not> cclosed (chans ?w1 ! c)"
    using assms by auto
  from promote_Inr [OF this] obtain w2 where w2: "promote ?w1 = Inr w2" "handles w2 = handles w"
    "que w2 = (que ?w1)\<lparr>active := active (que ?w1) @ take ?k (queued (que w)), queued := drop ?k (queued (que w))\<rparr>"
    "length (chans w2) = length (chans w)"
    "\<forall>c. chans w2 ! c = (if c \<in> set (take ?k (queued (que w)))
                        then \<lparr>cbuf = Some okStatus, cclosed = True\<rparr> else chans w ! c)"
    by auto
  have q2: "que w2 = drop_holder (hch hh) (que w)"
    using False w2(3) by (simp add: drop_holder_def Let_def)
  have dq: "distinct (queued (que w))" using assms(1) by simp
  have disj: "c \<notin> set (take ?k (queued (que w)))" if "c \<in> set (drop ?k (queued (que w)))" for c
    using dq that by (metis disjoint_iff set_take_disj_set_drop_if_distinct order_refl)
  have "distinct (queued (que w2))" using dq w2(3) by simp
  moreover have op2: "\<forall>c \<in> set (queued (que w2)). c < length (chans w2) \<and> \<not> cclosed (chans w2 ! c)"
    using assms(2) w2(3-5) disj by (auto dest: in_set_dropD)
  ultimately obtain w' where w': "broadcastStatus w2 = Inr w'" "que w' = que w2"
    "handles w' = handles w2" "length (chans w') = length (chans w2)"
    "\<forall>c. c \<notin> set (queued (que w2)) \<longrightarrow> chans w' ! c = chans w2 ! c"
    "\<forall>j < length (queued (que w2)). chans w' ! (queued (que w2) ! j) =
       (chans w2 ! (queued (que w2) ! j))\<lparr>cbuf := Some (position (que w2) j)\<rparr>"
    using broadcastStatus_Inr [of w2] by blast
  have eq: "releaseFromHandle hh w = Inr w'"
    using False w2(1) w'(1) by (simp add: releaseFromHandle_def Let_def)
  have cl: "cclosed (chans w' ! c) = False" if c: "c \<in> set (queued (que w2))" for c
  proof -
    obtain j where "j < length (queued (que w2))" "queued (que w2) ! j = c"
      using c by (meson in_set_conv_nth)
    with w'(6) have "cclosed (chans w' ! c) = cclosed (chans w2 ! c)" by auto
    with c op2 show ?thesis by auto
  qed
  have act: "c \<in> set (active (que w2)) \<longleftrightarrow> c \<in> set (take ?k (queued (que w)))" if "c \<in> set (queued (que w))" for c
    using assms(1) that w2(3) by auto
  have out: "chans w' ! c = (if c \<in> set (queued (que w)) \<and> c \<in> set (active (que w2))
       then \<lparr>cbuf = Some okStatus, cclosed = True\<rparr> else chans w ! c)" if "c \<notin> set (queued (que w2))" for c
    using that w'(5) w2(5) act [of c] by (auto dest: in_set_takeD)
  show ?thesis
    using eq q2 w'(2-4) w2(2,4) cl out w'(6) by auto
qed


subsection \<open>The operations keep the invariant and do not panic\<close>

lemma Release_released: "h < length (handles w) \<Longrightarrow> released (handles w ! h) \<Longrightarrow> Release h w = Inr w"
  by (simp add: Release_def)

lemma map_hch_update: "map hch ((handles w)[h := (handles w ! h)\<lparr>released := r\<rparr>]) = map hch (handles w)"
proof (cases "h < length (handles w)")
  case True
  have "map hch ((handles w)[h := (handles w ! h)\<lparr>released := r\<rparr>]) = (map hch (handles w))[h := map hch (handles w) ! h]"
    using True by (simp add: map_update)
  then show ?thesis by simp
next
  case False
  then show ?thesis by (simp add: list_update_beyond)
qed

lemma Release_Inr:
  assumes inv: "queue_inv w" and h: "h < length (handles w)" "\<not> released (handles w ! h)"
  shows "\<exists>w'. Release h w = Inr w' \<and> queue_inv w' \<and> que w' = drop_holder h (que w) \<and>
    handles w' = (handles w)[h := (handles w ! h)\<lparr>released := True\<rparr>] \<and> length (chans w') = length (chans w) \<and>
    (\<forall>j < length (queued (que w')). cbuf (chans w' ! (queued (que w') ! j)) = Some (position (que w') j)) \<and>
    (\<forall>c. c \<notin> set (queued (que w')) \<longrightarrow>
       chans w' ! c = (if c \<in> set (queued (que w)) \<and> c \<in> set (active (que w'))
                       then \<lparr>cbuf = Some okStatus, cclosed = True\<rparr> else chans w ! c))"
proof -
  note D = queue_invD [OF inv]
  let ?hh = "(handles w ! h)\<lparr>released := True\<rparr>"
  let ?w1 = "w\<lparr>handles := (handles w)[h := ?hh]\<rparr>"
  have hc: "h < length (chans w)" "hch ?hh = h" using h D(1) D(2) [of h] by simp_all
  have dis: "distinct (active (que w) @ queued (que w))" using D(3,4,5) by simp
  then have "distinct (active (que ?w1) @ queued (que ?w1))" by simp
  moreover have "\<forall>c \<in> set (queued (que ?w1)). c < length (chans ?w1) \<and> \<not> cclosed (chans ?w1 ! c)"
    using D(7) by auto
  ultimately obtain w' where w': "releaseFromHandle ?hh ?w1 = Inr w'" "que w' = drop_holder h (que w)"
    "handles w' = (handles w)[h := ?hh]" "length (chans w') = length (chans w)"
    "\<forall>c \<in> set (queued (que w')). cclosed (chans w' ! c) = False"
    "\<forall>j < length (queued (que w')). cbuf (chans w' ! (queued (que w') ! j)) = Some (position (que w') j)"
    "\<forall>c. c \<notin> set (queued (que w')) \<longrightarrow>
       chans w' ! c = (if c \<in> set (queued (que w)) \<and> c \<in> set (active (que w'))
                       then \<lparr>cbuf = Some okStatus, cclosed = True\<rparr> else chans w ! c)"
    using releaseFromHandle_Inr [of ?w1 ?hh] hc(2) by auto
  note L = drop_holder_lists [OF dis, of h, folded w'(2)]
  have "map hch (handles w') = [0..<length (chans w')]"
    using inv w'(3,4) map_hch_update [of w h True] by (simp add: queue_inv_def inv_lists_def)
  moreover have rel: "released (handles w' ! c) \<longleftrightarrow> c = h \<or> released (handles w ! c)" if "c < length (chans w)" for c
    using that w'(3) h(1) by (auto simp: nth_list_update)
  moreover have "c < length (chans w') \<and> cclosed (chans w' ! c) \<and> \<not> released (handles w' ! c)"
    if c: "c \<in> set (active (que w'))" for c
  proof -
    have "c \<notin> set (queued (que w'))" "c \<noteq> h" "c \<in> set (active (que w)) \<union> set (queued (que w))"
      using c L(3,4,5) by auto
    then show ?thesis using w'(4,7) c D(6) [of c] D(7) [of c] rel [of c] by auto
  qed
  moreover have "c < length (chans w') \<and> \<not> cclosed (chans w' ! c) \<and> \<not> released (handles w' ! c)"
    if c: "c \<in> set (queued (que w'))" for c
    using c L(1,2) w'(4,5) D(7) [of c] rel [of c] by auto
  ultimately have "inv_lists w'" using L(4) by (simp add: inv_lists_def)
  moreover have "inv_open w'"
  proof (unfold inv_open_def, intro allI impI)
    fix c assume c: "c < length (chans w')" "\<not> cclosed (chans w' ! c)" "\<not> released (handles w' ! c)"
    show "c \<in> set (queued (que w'))"
    proof (rule ccontr)
      assume n: "c \<notin> set (queued (que w'))"
      with w'(7) c(2) have "chans w' ! c = chans w ! c" by (auto split: if_splits)
      with c w'(4) rel [of c] inv have "c \<in> set (queued (que w))" "c \<noteq> h"
        by (auto simp: queue_inv_def inv_open_def)
      with n L(5) have "c \<in> set (active (que w'))" by auto
      with \<open>c \<in> set (queued (que w))\<close> n w'(7) have "cclosed (chans w' ! c)" by simp
      with c(2) show False by simp
    qed
  qed
  moreover have "inv_mail w'"
  proof (unfold inv_mail_def, intro conjI ballI allI impI)
    fix c st assume c: "c \<in> set (queued (que w'))" "cbuf (chans w' ! c) = Some st"
    then obtain j where "j < length (queued (que w'))" "queued (que w') ! j = c" by (meson in_set_conv_nth)
    with w'(6) c(2) have "st = position (que w') j" by auto
    then show "\<not> Ok st" "\<not> Full st" by (simp_all add: position_def Let_def)
  next
    fix c st assume c: "c \<in> set (active (que w'))" "cbuf (chans w' ! c) = Some st"
    have "c \<notin> set (queued (que w'))" using c L(4) by auto
    with w'(7) c L(5) inv show "Ok st" "\<not> Full st"
      by (auto simp: okStatus_def queue_inv_def inv_mail_def split: if_splits)
  qed
  moreover have "Release h w = Inr w'" using h w'(1) by (simp add: Release_def Let_def)
  ultimately show ?thesis using w' by (auto simp: queue_inv_def)
qed


text \<open>\<open>Acquire\<close> in closed form: what it does to the lists, and what the new channel holds.\<close>

definition rejects :: "Queue \<Rightarrow> bool" where
  "rejects q \<longleftrightarrow> maxQueued q > 0 \<and> int (length (queued q)) \<ge> maxQueued q"

definition fullStatus :: Status where
  "fullStatus = \<lparr>Index = 0, Total = 0, Ok = False, Full = True\<rparr>"

definition add_client :: "chid \<Rightarrow> Queue \<Rightarrow> Queue" where
  "add_client h q = (if has_room q then q\<lparr>active := active q @ [h]\<rparr>
                     else if rejects q then q else q\<lparr>queued := queued q @ [h]\<rparr>)"

definition first_chan :: "chid \<Rightarrow> Queue \<Rightarrow> Status chan" where
  "first_chan h q = (if has_room q then \<lparr>cbuf = Some okStatus, cclosed = True\<rparr>
                     else if rejects q then \<lparr>cbuf = Some fullStatus, cclosed = True\<rparr>
                     else \<lparr>cbuf = Some (position (add_client h q) (length (queued q))), cclosed = False\<rparr>)"

lemma Acquire_Inr:
  assumes "queue_inv w"
  shows "Acquire w = Inr (length (chans w),
     \<lparr>que = add_client (length (chans w)) (que w),
      chans = chans w @ [first_chan (length (chans w)) (que w)],
      handles = handles w @ [\<lparr>hch = length (chans w), released = False\<rparr>]\<rparr>)"
  using queue_invD(1) [OF assms]
  by (auto simp: Acquire_def Let_def chan_make_def chan_send_def chan_close_def makeHandle_def
      add_client_def first_chan_def rejects_def okStatus_def fullStatus_def position_def nth_append list_update_append)

lemma Acquire_InrD:
  assumes "queue_inv w" and "Acquire w = Inr (h, w')"
  shows "h = length (chans w)"
    and "w' = \<lparr>que = add_client (length (chans w)) (que w),
      chans = chans w @ [first_chan (length (chans w)) (que w)],
      handles = handles w @ [\<lparr>hch = length (chans w), released = False\<rparr>]\<rparr>"
  using Acquire_Inr [OF assms(1)] assms(2) by auto

lemma Acquire_inv [inv_pres]:
  assumes inv: "queue_inv w" and acq: "Acquire w = Inr (h, w')"
  shows "queue_inv w'"
proof -
  note D = queue_invD [OF inv]
  let ?n = "length (chans w)"
  have w': "w' = \<lparr>que = add_client ?n (que w), chans = chans w @ [first_chan ?n (que w)],
      handles = handles w @ [\<lparr>hch = ?n, released = False\<rparr>]\<rparr>"
    by (rule Acquire_InrD(2) [OF inv acq])
  have new: "?n \<notin> set (active (que w))" "?n \<notin> set (queued (que w))"
    using D(6) [of ?n] D(7) [of ?n] by blast+
  have old: "\<And>c. c \<in> set (active (que w)) \<Longrightarrow> c < ?n" "\<And>c. c \<in> set (queued (que w)) \<Longrightarrow> c < ?n"
    using D(6,7) by blast+
  have l: "inv_lists w" "inv_open w" "inv_mail w" using inv by (simp_all add: queue_inv_def)
  have "inv_lists w'"
    using l(1) new D(1) by (auto simp: w' inv_lists_def add_client_def first_chan_def nth_append)
  moreover have "inv_open w'"
    using l(2) D(1) by (auto simp: w' inv_open_def add_client_def first_chan_def nth_append less_Suc_eq split: if_splits)
  moreover have "inv_mail w'"
    using l(3) new old
    by (auto simp: w' inv_mail_def add_client_def first_chan_def nth_append okStatus_def position_def Let_def split: if_splits)
  ultimately show ?thesis by (simp add: queue_inv_def)
qed

lemma Recv_frame: "Recv h w = Some (st, w') \<Longrightarrow> que w' = que w \<and> handles w' = handles w"
  by (auto simp: Recv_def split: if_splits)

text \<open>A receive takes at most one message away.\<close>

lemma Recv_mail:
  assumes "Recv h w = Some (st, w')"
  shows "length (chans w') = length (chans w)" "cclosed (chans w' ! c) = cclosed (chans w ! c)"
    "cbuf (chans w' ! c) = Some x \<Longrightarrow> cbuf (chans w ! c) = Some x"
proof -
  obtain cs where w': "w' = w\<lparr>chans := cs\<rparr>" and cs: "chan_recv zeroStatus (hch (handles w ! h)) (chans w) = Some (st, cs)"
    using assms by (auto simp: Recv_def split: if_splits)
  note R = chan_recv_Some [OF cs]
  show "length (chans w') = length (chans w)" "cclosed (chans w' ! c) = cclosed (chans w ! c)"
    using R by (simp_all add: w')
  assume "cbuf (chans w' ! c) = Some x"
  then show "cbuf (chans w ! c) = Some x" using R by (cases "c = hch (handles w ! h)") (simp_all add: w')
qed

lemma Recv_inv [inv_pres]:
  assumes inv: "queue_inv w" and recv: "Recv h w = Some (st, w')"
  shows "queue_inv w'"
proof -
  note M = Recv_mail [OF recv] Recv_frame [OF recv]
  have l: "inv_lists w" "inv_open w" "inv_mail w" using inv by (simp_all add: queue_inv_def)
  have "inv_lists w' = inv_lists w" "inv_open w' = inv_open w"
    using M by (simp_all add: inv_lists_def inv_open_def)
  moreover have "inv_mail w'"
  proof (unfold inv_mail_def, intro conjI ballI allI impI)
    fix c x assume "c \<in> set (queued (que w'))" "cbuf (chans w' ! c) = Some x"
    then have "c \<in> set (queued (que w))" "cbuf (chans w ! c) = Some x" using M by auto
    with l(3) show "\<not> Ok x" "\<not> Full x" unfolding inv_mail_def by blast+
  next
    fix c x assume "c \<in> set (active (que w'))" "cbuf (chans w' ! c) = Some x"
    then have "c \<in> set (active (que w))" "cbuf (chans w ! c) = Some x" using M by auto
    with l(3) show "Ok x" "\<not> Full x" unfolding inv_mail_def by blast+
  qed
  ultimately show ?thesis using l by (simp add: queue_inv_def)
qed

lemma Release_inv [inv_pres]:
  assumes "queue_inv w" and "Release h w = Inr w'"
  shows "queue_inv w'"
proof -
  have "h < length (handles w)" using assms(2) by (auto simp: Release_def split: if_splits)
  then show ?thesis
    using assms Release_Inr [of w h] Release_released [of h w] by (cases "released (handles w ! h)") auto
qed

end
