(* ===== verification/QueueSystem.thy ===== *)
theory QueueSystem
  imports Queue
begin

text \<open>
  The queue under concurrent use: a step relation whose labels are the calls that goroutines
  make (each atomic under the mutex) and the clients' receives, in any order. The theory proves
  what the queue promises along every run: no panic, the two caps, no lost wake-up, first come
  first served, admissions that are sound and unique, positions that are exact.
\<close>

datatype qevent =
    EAcquire hid          \<comment> \<open>\<open>Acquire\<close> returned this handle\<close>
  | ERelease hid          \<comment> \<open>\<open>Release\<close>, by the client or by the garbage collector's cleanup\<close>
  | ERecv hid Status      \<comment> \<open>a receive from the handle's channel\<close>
  | ESetMax int int       \<comment> \<open>\<open>SetMax\<close>, on a configuration reload\<close>

inductive qstep :: "qworld \<Rightarrow> qevent \<Rightarrow> qworld \<Rightarrow> bool" where
  q_acquire: "Acquire w = Inr (h, w') \<Longrightarrow> qstep w (EAcquire h) w'"
| q_release: "Release h w = Inr w' \<Longrightarrow> qstep w (ERelease h) w'"
| q_recv: "Recv h w = Some (st, w') \<Longrightarrow> qstep w (ERecv h st) w'"
| q_setmax: "qstep w (ESetMax mx mq) (SetMax mx mq w)"

inductive_simps qstep_simps [simp]:
  "qstep w (EAcquire h) w'" "qstep w (ERelease h) w'" "qstep w (ERecv h st) w'" "qstep w (ESetMax mx mq) w'"

definition is_setmax :: "qevent \<Rightarrow> bool" where
  "is_setmax e = (case e of ESetMax mx mq \<Rightarrow> True | _ \<Rightarrow> False)"

lemma is_setmax_simps [simp]:
  "\<not> is_setmax (EAcquire h)" "\<not> is_setmax (ERelease h)" "\<not> is_setmax (ERecv h st)" "is_setmax (ESetMax mx mq)"
  by (simp_all add: is_setmax_def)

text \<open>The run is free of reloads.\<close>

definition no_reload :: "qevent list \<Rightarrow> bool" where
  "no_reload es = (\<forall>e \<in> set es. \<not> is_setmax e)"

lemma no_reload_append [simp]: "no_reload (es @ fs) \<longleftrightarrow> no_reload es \<and> no_reload fs"
  by (auto simp: no_reload_def)

lemma qstep_inv [inv_pres]: "qstep w e w' \<Longrightarrow> queue_inv w \<Longrightarrow> queue_inv w'"
  by (induction rule: qstep.induct) (auto intro: inv_pres simp: SetMax_inv)

lemma run_queue_inv: "run qstep w es w' \<Longrightarrow> queue_inv w \<Longrightarrow> queue_inv w'"
  by (erule run_invariant [where I = queue_inv]) (auto intro: qstep_inv)

lemma reach_queue_inv: "run qstep (New mx mq) es w \<Longrightarrow> queue_inv w"
  by (rule run_queue_inv) (auto intro: inv_pres)

text \<open>What each kind of step does to the two lists.\<close>

lemma qstep_lists:
  assumes inv: "queue_inv w" and step: "qstep w e w'"
  shows "que w' = (case e of EAcquire h \<Rightarrow> add_client (length (chans w)) (que w)
                   | ERelease h \<Rightarrow> if released (handles w ! h) then que w else drop_holder h (que w)
                   | ERecv h st \<Rightarrow> que w
                   | ESetMax mx mq \<Rightarrow> (que w)\<lparr>qmax := mx, maxQueued := mq\<rparr>)"
proof (cases e)
  case (EAcquire h)
  then show ?thesis using step Acquire_Inr [OF inv] by auto
next
  case (ERelease h)
  then have r: "Release h w = Inr w'" using step by simp
  then have "h < length (handles w)" by (auto simp: Release_def split: if_splits)
  then show ?thesis
    using r ERelease Release_released [of h w] Release_Inr [OF inv, of h] by (cases "released (handles w ! h)") auto
next
  case (ERecv h st)
  then show ?thesis using step Recv_frame by auto
next
  case (ESetMax mx mq)
  then show ?thesis using step by (simp add: SetMax_def)
qed

text \<open>The flag of a released handle stays set.\<close>

lemma qstep_released:
  assumes inv: "queue_inv w" and step: "qstep w e w'" and h: "h < length (handles w)" "released (handles w ! h)"
  shows "h < length (handles w') \<and> released (handles w' ! h)"
proof (cases e)
  case (EAcquire k)
  then show ?thesis using step h Acquire_Inr [OF inv] by (auto simp: nth_append)
next
  case (ERelease k)
  then have r: "Release k w = Inr w'" using step by simp
  then have "k < length (handles w)" by (auto simp: Release_def split: if_splits)
  then show ?thesis using r h Release_released [of k w] Release_Inr [OF inv, of k]
    by (cases "released (handles w ! k)") (auto simp: nth_list_update)
next
  case (ERecv k st)
  then show ?thesis using step h Recv_frame by auto
next
  case (ESetMax mx mq)
  then show ?thesis using step h by (simp add: SetMax_def)
qed


section \<open>The steps as a function\<close>

text \<open>The same steps, computed: \<open>None\<close> where the label does not fit or the receive would block.\<close>

definition qexec :: "qworld \<Rightarrow> qevent \<Rightarrow> qworld option" where
  "qexec w e = (case e of
       EAcquire h \<Rightarrow> (case Acquire w of Inr (h', w') \<Rightarrow> if h' = h then Some w' else None | Inl f \<Rightarrow> None)
     | ERelease h \<Rightarrow> (case Release h w of Inr w' \<Rightarrow> Some w' | Inl f \<Rightarrow> None)
     | ERecv h st \<Rightarrow> (case Recv h w of Some (st', w') \<Rightarrow> if st' = st then Some w' else None | None \<Rightarrow> None)
     | ESetMax mx mq \<Rightarrow> Some (SetMax mx mq w))"

fun qexecs :: "qworld \<Rightarrow> qevent list \<Rightarrow> qworld option" where
  "qexecs w [] = Some w"
| "qexecs w (e # es) = (case qexec w e of Some w' \<Rightarrow> qexecs w' es | None \<Rightarrow> None)"

lemma qstep_iff_qexec: "qstep w e w' \<longleftrightarrow> qexec w e = Some w'"
  by (cases e) (auto simp: qexec_def split: sum.splits option.splits if_splits)

lemma run_iff_qexecs: "run qstep w es w' \<longleftrightarrow> qexecs w es = Some w'"
  by (induction es arbitrary: w) (auto simp: run_Cons_iff qstep_iff_qexec split: option.splits)

section \<open>The caps\<close>

text \<open>
  A property of the two lists holds along a run if the two list operations and the reloads of
  the run keep it; ids are handed out in increasing order.
\<close>

definition lists_ok :: "Queue \<Rightarrow> nat \<Rightarrow> bool" where
  "lists_ok q n \<longleftrightarrow> distinct (active q @ queued q) \<and> (\<forall>c \<in> set (active q) \<union> set (queued q). c < n)"

lemma queue_inv_lists_ok: "queue_inv w \<Longrightarrow> lists_ok (que w) (length (chans w))"
  by (auto simp: queue_inv_def inv_lists_def lists_ok_def)

lemma qstep_que_invariant:
  assumes step: "qstep w e w'" and inv: "queue_inv w" and P: "P (que w)"
    and add: "\<And>q h. P q \<Longrightarrow> lists_ok q h \<Longrightarrow> P (add_client h q)"
    and drop: "\<And>q h n. P q \<Longrightarrow> lists_ok q n \<Longrightarrow> P (drop_holder h q)"
    and set: "\<And>q m k. P q \<Longrightarrow> e = ESetMax m k \<Longrightarrow> P (q\<lparr>qmax := m, maxQueued := k\<rparr>)"
  shows "P (que w')"
  using qstep_lists [OF inv step] add [OF P queue_inv_lists_ok [OF inv]] drop [OF P queue_inv_lists_ok [OF inv]] set P
  by (cases e) (auto split: if_splits)

lemma run_que_invariant:
  assumes run: "run qstep w es w'" and inv: "queue_inv w" and P: "P (que w)"
    and add: "\<And>q h. P q \<Longrightarrow> lists_ok q h \<Longrightarrow> P (add_client h q)"
    and drop: "\<And>q h n. P q \<Longrightarrow> lists_ok q n \<Longrightarrow> P (drop_holder h q)"
    and set: "\<And>q m k. P q \<Longrightarrow> ESetMax m k \<in> set es \<Longrightarrow> P (q\<lparr>qmax := m, maxQueued := k\<rparr>)"
  shows "P (que w')"
proof -
  have "queue_inv w' \<and> P (que w')"
    using run
  proof (rule run_invariant)
    show "queue_inv w \<and> P (que w)" using inv P by simp
  next
    fix t e u assume t: "queue_inv t \<and> P (que t)" and step: "qstep t e u" and e: "e \<in> set es"
    have "P (que u)"
      by (rule qstep_que_invariant [OF step, where P = P]) (use t e add drop set in auto)
    then show "queue_inv u \<and> P (que u)" using t step qstep_inv by blast
  qed
  then show ?thesis ..
qed

lemma add_client_frame [simp]: "qmax (add_client h q) = qmax q" "maxQueued (add_client h q) = maxQueued q"
  by (simp_all add: add_client_def)

lemma length_add_client:
  "qmax q \<noteq> 0 \<Longrightarrow> qmax q \<le> B \<Longrightarrow> int (length (active q)) \<le> B \<Longrightarrow> int (length (active (add_client h q))) \<le> B"
  "maxQueued q > 0 \<Longrightarrow> maxQueued q \<le> B \<Longrightarrow> int (length (queued q)) \<le> B \<Longrightarrow> int (length (queued (add_client h q))) \<le> B"
  by (auto simp: add_client_def has_room_def rejects_def)

lemma length_drop_holder:
  "qmax q \<noteq> 0 \<Longrightarrow> qmax q \<le> B \<Longrightarrow> int (length (active q)) \<le> B \<Longrightarrow> int (length (active (drop_holder h q))) \<le> B"
  "int (length (queued q)) \<le> B \<Longrightarrow> int (length (queued (drop_holder h q))) \<le> B"
proof -
  define n where "n = length (filter (\<lambda>c. h \<noteq> c) (active q))"
  have "n \<le> length (active q)" by (simp add: n_def)
  then show "qmax q \<noteq> 0 \<Longrightarrow> qmax q \<le> B \<Longrightarrow> int (length (active q)) \<le> B \<Longrightarrow> int (length (active (drop_holder h q))) \<le> B"
    by (auto simp: drop_holder_def Let_def vacancies_def min_def n_def [symmetric])
  have "length (queued (drop_holder h q)) \<le> length (queued q)"
    by (simp add: drop_holder_def Let_def)
  then show "int (length (queued q)) \<le> B \<Longrightarrow> int (length (queued (drop_holder h q))) \<le> B" by simp
qed

text \<open>
  The limits in force along a run: those of \<open>New\<close> and of every \<open>SetMax\<close>. A positive bound on
  them bounds the lists, whatever was lowered or raised in between.
\<close>

definition max_within :: "int \<Rightarrow> int \<Rightarrow> qevent list \<Rightarrow> bool" where
  "max_within B mx es \<longleftrightarrow> 0 \<le> B \<and> mx \<noteq> 0 \<and> mx \<le> B \<and> (\<forall>m k. ESetMax m k \<in> set es \<longrightarrow> m \<noteq> 0 \<and> m \<le> B)"

definition maxQueued_within :: "int \<Rightarrow> int \<Rightarrow> qevent list \<Rightarrow> bool" where
  "maxQueued_within B mq es \<longleftrightarrow> 0 < mq \<and> mq \<le> B \<and> (\<forall>m k. ESetMax m k \<in> set es \<longrightarrow> 0 < k \<and> k \<le> B)"

lemma run_active_le:
  assumes run: "run qstep (New mx mq) es w" and B: "max_within B mx es"
  shows "int (length (active (que w))) \<le> B"
proof -
  have "qmax (que w) \<noteq> 0 \<and> qmax (que w) \<le> B \<and> int (length (active (que w))) \<le> B"
    by (rule run_que_invariant [OF run New_inv])
      (use B in \<open>auto simp: max_within_def New_def intro: length_add_client length_drop_holder\<close>)
  then show ?thesis by blast
qed

lemma run_queued_le:
  assumes run: "run qstep (New mx mq) es w" and B: "maxQueued_within B mq es"
  shows "int (length (queued (que w))) \<le> B"
proof -
  have "0 < maxQueued (que w) \<and> maxQueued (que w) \<le> B \<and> int (length (queued (que w))) \<le> B"
    by (rule run_que_invariant [OF run New_inv])
      (use B in \<open>auto simp: maxQueued_within_def New_def intro: length_add_client length_drop_holder\<close>)
  then show ?thesis by blast
qed

section \<open>No lost wake-up, first come first served\<close>

text \<open>
  Without reloads nobody waits while there is room: the room test that \<open>Acquire\<close> makes is also
  the one the promotion loop stops at.
\<close>

definition work_conserving :: "Queue \<Rightarrow> bool" where
  "work_conserving q \<longleftrightarrow> (queued q \<noteq> [] \<longrightarrow> \<not> has_room q)"

lemma add_client_wc: "work_conserving q \<Longrightarrow> work_conserving (add_client h q)"
  by (auto simp: work_conserving_def add_client_def has_room_def)

lemma drop_holder_wc: "work_conserving q \<Longrightarrow> work_conserving (drop_holder h q)"
  by (auto simp: work_conserving_def drop_holder_def Let_def has_room_def vacancies_def min_def filter_empty_conv
      split: if_splits)

lemma New_wc: "work_conserving (que (New mx mq))"
  by (simp add: work_conserving_def New_def)

lemma no_reloadD: "no_reload es \<Longrightarrow> ESetMax m k \<notin> set es"
  by (auto simp: no_reload_def)

lemma run_work_conserving:
  assumes run: "run qstep (New mx mq) es w" and "no_reload es"
  shows "work_conserving (que w)"
  by (rule run_que_invariant [OF run New_inv])
    (use assms(2) in \<open>auto simp: New_wc no_reloadD intro: add_client_wc drop_holder_wc\<close>)

text \<open>Handles are numbered in the order of arrival, and the waiting list is in that order.\<close>

lemma add_client_sorted: "sorted_wrt (<) (queued q) \<Longrightarrow> lists_ok q h \<Longrightarrow> sorted_wrt (<) (queued (add_client h q))"
  by (auto simp: add_client_def sorted_wrt_append lists_ok_def)

lemma drop_holder_sorted: "sorted_wrt (<) (queued q) \<Longrightarrow> sorted_wrt (<) (queued (drop_holder h q))"
  by (auto simp: drop_holder_def Let_def sorted_wrt_filter sorted_wrt_drop)

lemma run_sorted:
  assumes run: "run qstep (New mx mq) es w"
  shows "sorted_wrt (<) (queued (que w))"
  by (rule run_que_invariant [OF run New_inv]) (auto simp: New_def intro: add_client_sorted drop_holder_sorted)

text \<open>One release admits a front part of the waiting list.\<close>

lemma drop_holder_fifo:
  assumes "sorted_wrt (<) (queued q)" "lists_ok q n"
    and "k \<in> set (active (drop_holder h q))" "k \<notin> set (active q)" "l \<in> set (queued (drop_holder h q))"
  shows "k < l"
proof (cases "h \<in> set (queued q)")
  case True
  with assms show ?thesis by (simp add: drop_holder_def)
next
  case False
  define v where "v = vacancies (q\<lparr>active := filter (\<lambda>c. h \<noteq> c) (active q)\<rparr>)"
  from False assms(3-5) have "k \<in> set (take v (queued q))" "l \<in> set (drop v (queued q))"
    by (auto simp: drop_holder_def Let_def v_def)
  moreover have "sorted_wrt (<) (take v (queued q) @ drop v (queued q))" using assms(1) by simp
  ultimately show ?thesis unfolding sorted_wrt_append by blast
qed


section \<open>Positions\<close>

text \<open>
  The position of a waiting client as \<open>Index\<close> counts it: the holders above the limit and the
  clients ahead.
\<close>

definition rank :: "Queue \<Rightarrow> nat \<Rightarrow> int" where
  "rank q j = int (length (active q)) - qmax q + int j"

lemma Index_position [simp]: "Index (position q j) = rank q j"
  by (simp add: position_def rank_def Let_def)

text \<open>
  Without reloads, an unread message of a waiting client is its present rank: arrivals do not
  change it, and every release sends new messages.
\<close>

definition mail_exact :: "qworld \<Rightarrow> bool" where
  "mail_exact w \<longleftrightarrow> (\<forall>j < length (queued (que w)). \<forall>st.
     cbuf (chans w ! (queued (que w) ! j)) = Some st \<longrightarrow> Index st = rank (que w) j)"

lemma mail_exact_acquire:
  assumes inv: "queue_inv w" and wc: "work_conserving (que w)" and m: "mail_exact w"
    and acq: "Acquire w = Inr (h, w')"
  shows "mail_exact w'"
proof -
  let ?n = "length (chans w)"
  have w': "w' = \<lparr>que = add_client ?n (que w), chans = chans w @ [first_chan ?n (que w)],
      handles = handles w @ [\<lparr>hch = ?n, released = False\<rparr>]\<rparr>"
    by (rule Acquire_InrD(2) [OF inv acq])
  have old: "queued (que w) ! j < ?n" if "j < length (queued (que w))" for j
    using that queue_invD(7) [OF inv] by simp
  have r: "rank (add_client ?n (que w)) j = rank (que w) j" if "queued (que w) \<noteq> []" for j
    using wc that by (simp add: work_conserving_def rank_def add_client_def)
  show ?thesis
  proof (unfold mail_exact_def, intro allI impI)
    fix j st assume j: "j < length (queued (que w'))" and st: "cbuf (chans w' ! (queued (que w') ! j)) = Some st"
    show "Index st = rank (que w') j"
    proof (cases "j < length (queued (que w))")
      case True
      then have "queued (que w') ! j = queued (que w) ! j" by (simp add: w' add_client_def nth_append)
      moreover have "queued (que w) \<noteq> []" using True by auto
      ultimately show ?thesis
        using st True m old [OF True] r by (auto simp: w' nth_append mail_exact_def)
    next
      case False
      with j have "\<not> has_room (que w)" "\<not> rejects (que w)" "j = length (queued (que w))"
        by (auto simp: w' add_client_def split: if_splits)
      with st show ?thesis by (auto simp: w' add_client_def first_chan_def nth_append)
    qed
  qed
qed

lemma mail_exact_release:
  assumes inv: "queue_inv w" and m: "mail_exact w" and rel: "Release h w = Inr w'"
  shows "mail_exact w'"
proof -
  have h: "h < length (handles w)" using rel by (auto simp: Release_def split: if_splits)
  show ?thesis
  proof (cases "released (handles w ! h)")
    case True
    then show ?thesis using m rel Release_released [OF h] by simp
  next
    case False
    from Release_Inr [OF inv h False] rel have
      "\<forall>j < length (queued (que w')). cbuf (chans w' ! (queued (que w') ! j)) = Some (position (que w') j)"
      by auto
    then show ?thesis by (simp add: mail_exact_def)
  qed
qed

lemma mail_exact_recv:
  assumes m: "mail_exact w" and recv: "Recv h w = Some (st, w')"
  shows "mail_exact w'"
  using m Recv_mail(3) [OF recv] Recv_frame [OF recv] unfolding mail_exact_def by metis

lemma run_mail_exact:
  assumes run: "run qstep (New mx mq) es w" and nr: "no_reload es"
  shows "mail_exact w"
proof -
  have "queue_inv w \<and> work_conserving (que w) \<and> mail_exact w"
    using run
  proof (rule run_invariant)
    show "queue_inv (New mx mq) \<and> work_conserving (que (New mx mq)) \<and> mail_exact (New mx mq)"
      by (simp add: New_inv New_wc) (simp add: mail_exact_def New_def)
  next
    fix t e u
    assume t: "queue_inv t \<and> work_conserving (que t) \<and> mail_exact t" and step: "qstep t e u" and e: "e \<in> set es"
    have "work_conserving (que u)"
      by (rule qstep_que_invariant [OF step, where P = work_conserving])
        (use t e no_reloadD [OF nr] in \<open>auto intro: add_client_wc drop_holder_wc\<close>)
    moreover have "mail_exact u"
      using step t e no_reloadD [OF nr]
      by (cases e) (auto intro: mail_exact_acquire mail_exact_release mail_exact_recv)
    ultimately show "queue_inv u \<and> work_conserving (que u) \<and> mail_exact u"
      using t step qstep_inv by blast
  qed
  then show ?thesis by blast
qed

text \<open>
  The rank is a countdown: a holder's release admits the client of rank 0 and takes one off
  every other rank; nothing else raises a rank.
\<close>

lemma drop_holder_rank:
  assumes wc: "work_conserving q" and dis: "distinct (active q @ queued q)"
    and h: "h \<in> set (active q)" and j: "j < length (queued q)"
  shows "(if rank q j = 0 then queued q ! j \<in> set (active (drop_holder h q))
          else 0 < rank q j \<and> (\<exists>i < length (queued (drop_holder h q)).
                 queued (drop_holder h q) ! i = queued q ! j \<and> rank (drop_holder h q) i = rank q j - 1))"
proof -
  let ?n = "length (active q)" and ?m = "length (queued q)"
  have nr: "qmax q \<noteq> 0" "qmax q \<le> int ?n" using wc j by (auto simp: work_conserving_def has_room_def)
  have hq: "h \<notin> set (queued q)" using h dis by auto
  have len: "Suc (length (filter (\<lambda>c. h \<noteq> c) (active q))) = ?n"
    using length_filter_neq [OF _ h] dis by simp
  define k where "k = vacancies (q\<lparr>active := filter (\<lambda>c. h \<noteq> c) (active q)\<rparr>)"
  have q': "drop_holder h q = q\<lparr>active := filter (\<lambda>c. h \<noteq> c) (active q) @ take k (queued q), queued := drop k (queued q)\<rparr>"
    using hq by (simp add: drop_holder_def Let_def k_def)
  have k: "k = (if qmax q = int ?n then 1 else 0)"
    using nr len j by (auto simp: k_def vacancies_def min_def)
  show ?thesis
  proof (cases "qmax q = int ?n")
    case True
    then have k1: "k = 1" and r: "rank q j = int j" using k by (simp_all add: rank_def)
    show ?thesis
    proof (cases j)
      case 0
      then show ?thesis using r k1 j q' by (cases "queued q") auto
    next
      case (Suc i)
      have "i < length (queued (drop_holder h q)) \<and> queued (drop_holder h q) ! i = queued q ! j \<and>
          rank (drop_holder h q) i = rank q j - 1"
        using Suc k1 j q' len r True by (auto simp: rank_def)
      with r Suc show ?thesis by auto
    qed
  next
    case False
    then have k0: "k = 0" and r: "0 < rank q j" using k nr by (simp_all add: rank_def)
    have "j < length (queued (drop_holder h q)) \<and> queued (drop_holder h q) ! j = queued q ! j \<and>
        rank (drop_holder h q) j = rank q j - 1"
      using k0 j q' len by (auto simp: rank_def)
    with r show ?thesis by auto
  qed
qed


section \<open>Admissions\<close>

text \<open>
  An admission in a buffer belongs to a closed channel whose handle holds a slot or has given
  it back.
\<close>

definition ok_mail :: "qworld \<Rightarrow> bool" where
  "ok_mail w \<longleftrightarrow> (\<forall>h < length (chans w). \<forall>st. cbuf (chans w ! h) = Some st \<and> Ok st \<longrightarrow>
     cclosed (chans w ! h) \<and> (h \<in> set (active (que w)) \<or> released (handles w ! h)))"

text \<open>A client was told it may start: what is true of its handle from then on.\<close>

definition served :: "hid \<Rightarrow> qworld \<Rightarrow> bool" where
  "served h w \<longleftrightarrow> h < length (chans w) \<and> cbuf (chans w ! h) = None \<and> cclosed (chans w ! h) \<and>
     (h \<in> set (active (que w)) \<or> released (handles w ! h))"

lemma qstep_ok_mail:
  assumes inv: "queue_inv w" and ok: "ok_mail w" and step: "qstep w e w'"
  shows "ok_mail w'"
proof (cases e)
  case (EAcquire k)
  then have w': "w' = \<lparr>que = add_client (length (chans w)) (que w), chans = chans w @ [first_chan (length (chans w)) (que w)],
      handles = handles w @ [\<lparr>hch = length (chans w), released = False\<rparr>]\<rparr>"
    using Acquire_InrD(2) [OF inv] step by simp
  show ?thesis using ok queue_invD(1) [OF inv]
    by (auto simp: w' ok_mail_def nth_append less_Suc_eq first_chan_def add_client_def position_def fullStatus_def Let_def
        split: if_splits)
next
  case (ERelease k)
  then have r: "Release k w = Inr w'" using step by simp
  then have k: "k < length (handles w)" by (auto simp: Release_def split: if_splits)
  show ?thesis
  proof (cases "released (handles w ! k)")
    case True
    then show ?thesis using r ok Release_released [OF k] by simp
  next
    case False
    note R = Release_Inr [OF inv k False]
    have R1: "que w' = drop_holder k (que w)" "handles w' = (handles w)[k := (handles w ! k)\<lparr>released := True\<rparr>]"
      "length (chans w') = length (chans w)"
      and R2: "\<forall>j < length (queued (que w')). cbuf (chans w' ! (queued (que w') ! j)) = Some (position (que w') j)"
      and R3: "\<forall>c. c \<notin> set (queued (que w')) \<longrightarrow> chans w' ! c =
         (if c \<in> set (queued (que w)) \<and> c \<in> set (active (que w')) then \<lparr>cbuf = Some okStatus, cclosed = True\<rparr> else chans w ! c)"
      using R r by auto
    show ?thesis
    proof (unfold ok_mail_def, intro allI impI)
      fix h st assume h: "h < length (chans w')" and st: "cbuf (chans w' ! h) = Some st \<and> Ok st"
      have nq: "h \<notin> set (queued (que w'))"
      proof
        assume "h \<in> set (queued (que w'))"
        then obtain j where "j < length (queued (que w'))" "queued (que w') ! j = h" by (meson in_set_conv_nth)
        with R2 st have "st = position (que w') j" by auto
        with st show False by (simp add: position_def Let_def)
      qed
      show "cclosed (chans w' ! h) \<and> (h \<in> set (active (que w')) \<or> released (handles w' ! h))"
      proof (cases "h \<in> set (queued (que w)) \<and> h \<in> set (active (que w'))")
        case True
        with R3 nq show ?thesis by simp
      next
        case False
        with R3 nq have "chans w' ! h = chans w ! h" by auto
        with ok h st R1(3) have o: "cclosed (chans w' ! h)" "h \<in> set (active (que w)) \<or> released (handles w ! h)"
          by (auto simp: ok_mail_def)
        have "distinct (active (que w) @ queued (que w))" using queue_invD(3-5) [OF inv] by simp
        from drop_holder_lists(6) [OF this, of k] o(2) k R1
        have "h \<in> set (active (que w')) \<or> released (handles w' ! h)"
          by (cases "h = k") (auto simp: nth_list_update)
        with o(1) show ?thesis by blast
      qed
    qed
  qed
next
  case (ERecv k st)
  then have recv: "Recv k w = Some (st, w')" using step by simp
  show ?thesis using ok Recv_mail [OF recv] Recv_frame [OF recv] by (auto simp: ok_mail_def)
next
  case (ESetMax mx mq)
  then show ?thesis using step ok by (simp add: ok_mail_def SetMax_def)
qed

lemma qstep_served:
  assumes inv: "queue_inv w" and s: "served h w" and step: "qstep w e w'"
  shows "served h w'"
proof (cases e)
  case (EAcquire k)
  then have w': "w' = \<lparr>que = add_client (length (chans w)) (que w), chans = chans w @ [first_chan (length (chans w)) (que w)],
      handles = handles w @ [\<lparr>hch = length (chans w), released = False\<rparr>]\<rparr>"
    using Acquire_InrD(2) [OF inv] step by simp
  show ?thesis using s queue_invD(1) [OF inv] by (auto simp: w' served_def nth_append add_client_def)
next
  case (ERelease k)
  then have r: "Release k w = Inr w'" using step by simp
  then have k: "k < length (handles w)" by (auto simp: Release_def split: if_splits)
  show ?thesis
  proof (cases "released (handles w ! k)")
    case True
    then show ?thesis using r s Release_released [OF k] by simp
  next
    case False
    note R = Release_Inr [OF inv k False]
    have R1: "que w' = drop_holder k (que w)" "handles w' = (handles w)[k := (handles w ! k)\<lparr>released := True\<rparr>]"
      "length (chans w') = length (chans w)"
      and R3: "\<forall>c. c \<notin> set (queued (que w')) \<longrightarrow> chans w' ! c =
         (if c \<in> set (queued (que w)) \<and> c \<in> set (active (que w')) then \<lparr>cbuf = Some okStatus, cclosed = True\<rparr> else chans w ! c)"
      using R r by auto
    have dis: "distinct (active (que w) @ queued (que w))" using queue_invD(3-5) [OF inv] by simp
    have nq: "h \<notin> set (queued (que w))" using s queue_invD(7) [OF inv, of h] by (auto simp: served_def)
    then have "chans w' ! h = chans w ! h"
      using R3 drop_holder_lists(1) [OF dis, of k] R1(1) by auto
    moreover have "h \<in> set (active (que w')) \<or> released (handles w' ! h)"
      using s drop_holder_lists(6) [OF dis, of k] R1 k by (cases "h = k") (auto simp: served_def nth_list_update)
    ultimately show ?thesis using s R1(3) by (simp add: served_def)
  qed
next
  case (ERecv k st)
  then have recv: "Recv k w = Some (st, w')" using step by simp
  show ?thesis using s Recv_mail [OF recv] Recv_frame [OF recv] unfolding served_def
    by (metis not_Some_eq)
next
  case (ESetMax mx mq)
  then show ?thesis using step s by (simp add: served_def SetMax_def)
qed

text \<open>Receiving an admission makes the handle a served one, and a served handle never hears another.\<close>

lemma recv_ok_served:
  assumes inv: "queue_inv w" and ok: "ok_mail w" and recv: "Recv h w = Some (st, w')" and st: "Ok st"
  shows "\<not> served h w \<and> served h w'"
proof -
  have h: "h < length (chans w)" "hch (handles w ! h) = h"
    using recv queue_invD(1) [OF inv] queue_invD(2) [OF inv, of h] by (auto simp: Recv_def split: if_splits)
  have b: "cbuf (chans w ! h) = Some st"
    using recv h st by (auto simp: Recv_def chan_recv_def zeroStatus_def split: if_splits option.splits)
  then have "cbuf (chans w' ! h) = None" using recv h queue_invD(1) [OF inv]
    by (auto simp: Recv_def chan_recv_def split: if_splits)
  with b ok st h Recv_mail [OF recv] Recv_frame [OF recv] show ?thesis
    by (auto simp: served_def ok_mail_def)
qed

definition ok_recv :: "hid \<Rightarrow> qevent \<Rightarrow> bool" where
  "ok_recv h e \<longleftrightarrow> (case e of ERecv k st \<Rightarrow> k = h \<and> Ok st | _ \<Rightarrow> False)"

lemma run_served:
  assumes "run qstep (New mx mq) es w"
  shows "queue_inv w \<and> ok_mail w \<and>
     (\<forall>h. length (filter (ok_recv h) es) = (if served h w \<and> (\<exists>e \<in> set es. ok_recv h e) then 1 else 0))"
  using assms
proof (induction "New mx mq" es w rule: run.induct)
  case run_Nil
  show ?case by (simp add: New_inv) (simp add: New_def ok_mail_def)
next
  case (run_snoc es w e w')
  have inv: "queue_inv w" and ok: "ok_mail w"
    and cnt: "\<And>h. length (filter (ok_recv h) es) = (if served h w \<and> (\<exists>e \<in> set es. ok_recv h e) then 1 else 0)"
    using run_snoc by simp_all
  have "length (filter (ok_recv h) (es @ [e])) = (if served h w' \<and> (\<exists>e \<in> set (es @ [e]). ok_recv h e) then 1 else 0)" for h
  proof (cases "ok_recv h e")
    case True
    then obtain st where e: "e = ERecv h st" "Ok st" by (auto simp: ok_recv_def split: qevent.splits)
    with run_snoc.hyps have "\<not> served h w" "served h w'"
      using recv_ok_served [OF inv ok] by auto
    with cnt [of h] True show ?thesis by auto
  next
    case False
    show ?thesis
    proof (cases "\<exists>e \<in> set es. ok_recv h e")
      case True
      then have "filter (ok_recv h) es \<noteq> []" by (auto simp: filter_empty_conv)
      with cnt [of h] have "served h w" by (auto split: if_splits)
      then have "served h w'" by (rule qstep_served [OF inv _ run_snoc.hyps(3)])
      with True False cnt [of h] \<open>served h w\<close> show ?thesis by auto
    next
      case n: False
      then have "filter (ok_recv h) es = []" by (auto simp: filter_empty_conv)
      with n False show ?thesis by auto
    qed
  qed
  then show ?case using qstep_inv [OF run_snoc.hyps(3) inv] qstep_ok_mail [OF inv ok run_snoc.hyps(3)] by blast
qed


section \<open>Abstract specification and refinement\<close>

text \<open>
  What the queue promises, without lists of channels: a set of holders, a line of waiting
  clients, and declarative rules. A release lets the front of the line in: as many as the limit
  allows, and nobody is left waiting while there is room.
\<close>

record spec_queue =
  limit :: int
  capacity :: int
  holders :: "hid set"
  waiting :: "hid list"

definition spec_room :: "spec_queue \<Rightarrow> bool" where
  "spec_room s \<longleftrightarrow> limit s = 0 \<or> int (card (holders s)) < limit s"

definition admits :: "spec_queue \<Rightarrow> spec_queue \<Rightarrow> bool" where
  "admits s s' \<longleftrightarrow> (\<exists>front. waiting s = front @ waiting s' \<and>
     s' = s\<lparr>holders := holders s \<union> set front, waiting := waiting s'\<rparr> \<and>
     (front \<noteq> [] \<longrightarrow> limit s \<noteq> 0 \<longrightarrow> int (card (holders s')) \<le> limit s) \<and>
     (waiting s' \<noteq> [] \<longrightarrow> \<not> spec_room s'))"

inductive spec_step :: "spec_queue \<Rightarrow> qevent \<Rightarrow> spec_queue \<Rightarrow> bool" where
  s_admit: "h \<notin> holders s \<Longrightarrow> h \<notin> set (waiting s) \<Longrightarrow> spec_room s \<Longrightarrow>
     spec_step s (EAcquire h) (s\<lparr>holders := insert h (holders s)\<rparr>)"
| s_reject: "\<not> spec_room s \<Longrightarrow> 0 < capacity s \<Longrightarrow> capacity s \<le> int (length (waiting s)) \<Longrightarrow>
     spec_step s (EAcquire h) s"
| s_wait: "h \<notin> holders s \<Longrightarrow> h \<notin> set (waiting s) \<Longrightarrow> \<not> spec_room s \<Longrightarrow>
     \<not> (0 < capacity s \<and> capacity s \<le> int (length (waiting s))) \<Longrightarrow>
     spec_step s (EAcquire h) (s\<lparr>waiting := waiting s @ [h]\<rparr>)"
| s_give_up: "h \<in> set (waiting s) \<Longrightarrow> spec_step s (ERelease h) (s\<lparr>waiting := filter (\<lambda>c. c \<noteq> h) (waiting s)\<rparr>)"
| s_leave: "h \<notin> set (waiting s) \<Longrightarrow> admits (s\<lparr>holders := holders s - {h}\<rparr>) s' \<Longrightarrow> spec_step s (ERelease h) s'"
| s_again: "h \<notin> holders s \<Longrightarrow> h \<notin> set (waiting s) \<Longrightarrow> spec_step s (ERelease h) s"
| s_recv: "spec_step s (ERecv h st) s"
| s_limits: "spec_step s (ESetMax mx mq) (s\<lparr>limit := mx, capacity := mq\<rparr>)"

definition abs_queue :: "Queue \<Rightarrow> spec_queue" where
  "abs_queue q = \<lparr>limit = qmax q, capacity = maxQueued q, holders = set (active q), waiting = queued q\<rparr>"

lemma abs_queue_room: "distinct (active q) \<Longrightarrow> spec_room (abs_queue q) \<longleftrightarrow> has_room q"
  by (auto simp: spec_room_def abs_queue_def has_room_def distinct_card)

lemma add_client_refines:
  assumes "lists_ok q h"
  shows "spec_step (abs_queue q) (EAcquire h) (abs_queue (add_client h q))"
proof -
  have f: "h \<notin> set (active q)" "h \<notin> set (queued q)" "distinct (active q)" using assms by (auto simp: lists_ok_def)
  note r = abs_queue_room [OF f(3)]
  consider "has_room q" | "\<not> has_room q" "rejects q" | "\<not> has_room q" "\<not> rejects q" by blast
  then show ?thesis
  proof cases
    case 1
    then have "abs_queue (add_client h q) = (abs_queue q)\<lparr>holders := insert h (holders (abs_queue q))\<rparr>"
      by (simp add: add_client_def abs_queue_def)
    then show ?thesis using 1 f r s_admit [of h "abs_queue q"] by (simp add: abs_queue_def)
  next
    case 2
    then have "abs_queue (add_client h q) = abs_queue q" by (simp add: add_client_def)
    then show ?thesis using 2 r s_reject [of "abs_queue q" h] by (simp add: abs_queue_def rejects_def)
  next
    case 3
    then have "abs_queue (add_client h q) = (abs_queue q)\<lparr>waiting := waiting (abs_queue q) @ [h]\<rparr>"
      by (simp add: add_client_def abs_queue_def)
    then show ?thesis using 3 f r s_wait [of h "abs_queue q"] by (simp add: abs_queue_def rejects_def)
  qed
qed

lemma drop_holder_refines:
  assumes "distinct (active q @ queued q)"
  shows "spec_step (abs_queue q) (ERelease h) (abs_queue (drop_holder h q))"
proof (cases "h \<in> set (queued q)")
  case True
  have "(\<lambda>c. h \<noteq> c) = (\<lambda>c. c \<noteq> h)" by auto
  then have "abs_queue (drop_holder h q) = (abs_queue q)\<lparr>waiting := filter (\<lambda>c. c \<noteq> h) (waiting (abs_queue q))\<rparr>"
    using True by (simp add: drop_holder_def abs_queue_def)
  then show ?thesis using True s_give_up [of h "abs_queue q"] by (simp add: abs_queue_def)
next
  case False
  define q1 where "q1 = q\<lparr>active := filter (\<lambda>c. h \<noteq> c) (active q)\<rparr>"
  let ?k = "vacancies q1" and ?q' = "drop_holder h q"
  have q': "?q' = q1\<lparr>active := active q1 @ take ?k (queued q), queued := drop ?k (queued q)\<rparr>"
    using False by (simp add: drop_holder_def Let_def q1_def)
  have d: "distinct (active ?q')" using drop_holder_lists(4) [OF assms, of h] by simp
  have card: "card (holders (abs_queue ?q')) = length (active q1) + length (take ?k (queued q))"
    using distinct_card [OF d] by (simp add: abs_queue_def q')
  have "admits ((abs_queue q)\<lparr>holders := holders (abs_queue q) - {h}\<rparr>) (abs_queue ?q')"
  proof (unfold admits_def, intro exI [of _ "take ?k (queued q)"] conjI impI)
    show "waiting ((abs_queue q)\<lparr>holders := holders (abs_queue q) - {h}\<rparr>) = take ?k (queued q) @ waiting (abs_queue ?q')"
      by (simp add: abs_queue_def q')
    show "abs_queue ?q' = (abs_queue q)\<lparr>holders := holders (abs_queue q) - {h},
        holders := holders ((abs_queue q)\<lparr>holders := holders (abs_queue q) - {h}\<rparr>) \<union> set (take ?k (queued q)),
        waiting := waiting (abs_queue ?q')\<rparr>"
      by (auto simp: abs_queue_def q' q1_def)
    show "int (card (holders (abs_queue ?q'))) \<le> limit ((abs_queue q)\<lparr>holders := holders (abs_queue q) - {h}\<rparr>)"
      if "take ?k (queued q) \<noteq> []" "limit ((abs_queue q)\<lparr>holders := holders (abs_queue q) - {h}\<rparr>) \<noteq> 0"
    proof -
      have "0 < ?k" "qmax q \<noteq> 0" using that by (auto simp: abs_queue_def)
      moreover have "queued q \<noteq> []" using that(1) by auto
      then obtain m where "length (queued q) = Suc m" by (cases "queued q") auto
      ultimately show ?thesis unfolding card
        by (auto simp: vacancies_def q1_def abs_queue_def min_def split: if_splits)
    qed
    show "\<not> spec_room (abs_queue ?q')" if "waiting (abs_queue ?q') \<noteq> []"
      unfolding abs_queue_room [OF d] using that
      by (auto simp: has_room_def q' q1_def vacancies_def abs_queue_def min_def split: if_splits)
  qed
  then show ?thesis using False by (intro s_leave) (simp_all add: abs_queue_def)
qed

lemma qstep_refines:
  assumes inv: "queue_inv w" and step: "qstep w e w'"
  shows "spec_step (abs_queue (que w)) e (abs_queue (que w'))"
proof (cases e)
  case (EAcquire h)
  then have "h = length (chans w)" using step Acquire_InrD(1) [OF inv] by simp
  then show ?thesis using EAcquire qstep_lists [OF inv step] add_client_refines queue_inv_lists_ok [OF inv] by simp
next
  case (ERelease h)
  then have "h < length (handles w)" using step by (auto simp: Release_def split: if_splits)
  then show ?thesis
    using ERelease qstep_lists [OF inv step] queue_invD(3-5) [OF inv] queue_invD(6,7) [OF inv, of h]
      drop_holder_refines [of "que w" h] s_again [of h "abs_queue (que w)"]
    by (cases "released (handles w ! h)") (auto simp: abs_queue_def)
next
  case (ERecv h st)
  then show ?thesis using qstep_lists [OF inv step] by (simp add: s_recv)
next
  case (ESetMax mx mq)
  then show ?thesis using qstep_lists [OF inv step] s_limits [of "abs_queue (que w)" mx mq] by (simp add: abs_queue_def)
qed

lemma run_refines:
  assumes "run qstep w es w'" and "queue_inv w"
  shows "run spec_step (abs_queue (que w)) es (abs_queue (que w'))"
  using assms
proof (induction rule: run.induct)
  case (run_snoc w es t e u)
  then show ?case using qstep_refines run_queue_inv by (blast intro: run.run_snoc)
qed simp

end
