(* ===== verification/QueueProps.thy ===== *)
theory QueueProps
  imports QueueSystem
begin

text \<open>
  The properties of the admission queue, over every interleaving of its clients: each is a few
  steps over the invariants of \<open>QueueSystem\<close>.
\<close>

section \<open>Progress\<close>

lemma filter_index:
  assumes "j < length xs" "xs ! j \<noteq> h"
  shows "\<exists>i \<le> j. i < length (filter (\<lambda>c. h \<noteq> c) xs) \<and> filter (\<lambda>c. h \<noteq> c) xs ! i = xs ! j"
proof -
  let ?P = "\<lambda>c. h \<noteq> c" and ?i = "length (filter (\<lambda>c. h \<noteq> c) (take j xs))"
  have "filter ?P xs = filter ?P (take j xs) @ xs ! j # filter ?P (drop (Suc j) xs)"
    using assms by (subst id_take_nth_drop [OF assms(1)]) simp
  moreover have "?i \<le> j" using length_filter_le [of ?P "take j xs"] assms(1) by simp
  ultimately show ?thesis by (intro exI [of _ ?i]) simp
qed

text \<open>The releases of a run that give a slot back.\<close>

fun holder_releases :: "qworld \<Rightarrow> qevent list \<Rightarrow> int" where
  "holder_releases w [] = 0"
| "holder_releases w (e # es) =
     (case qexec w e of
        None \<Rightarrow> 0
      | Some w' \<Rightarrow> (case e of ERelease h \<Rightarrow> if h \<in> set (active (que w)) then 1 else 0 | _ \<Rightarrow> 0)
                   + holder_releases w' es)"

text \<open>What one step does for a waiting client: it is in, or its rank has gone down enough.\<close>

definition better :: "Queue \<Rightarrow> chid \<Rightarrow> int \<Rightarrow> bool" where
  "better q c r \<longleftrightarrow> c \<in> set (active q) \<or> (\<exists>i < length (queued q). queued q ! i = c \<and> rank q i \<le> r)"

lemma better_mono: "better q c r \<Longrightarrow> r \<le> r' \<Longrightarrow> better q c r'"
  by (auto simp: better_def intro: order_trans)

lemma add_client_better:
  assumes wc: "work_conserving q" and b: "better q c r"
  shows "better (add_client h q) c r"
  using b unfolding better_def
proof (elim disjE exE conjE)
  assume "c \<in> set (active q)"
  then show "c \<in> set (active (add_client h q)) \<or> (\<exists>i < length (queued (add_client h q)).
      queued (add_client h q) ! i = c \<and> rank (add_client h q) i \<le> r)"
    by (simp add: add_client_def)
next
  fix i assume i: "i < length (queued q)" "queued q ! i = c" "rank q i \<le> r"
  then have "\<not> has_room q" using wc by (auto simp: work_conserving_def)
  with i have "i < length (queued (add_client h q)) \<and> queued (add_client h q) ! i = c \<and> rank (add_client h q) i \<le> r"
    by (simp add: add_client_def rank_def nth_append)
  then show "c \<in> set (active (add_client h q)) \<or> (\<exists>i < length (queued (add_client h q)).
      queued (add_client h q) ! i = c \<and> rank (add_client h q) i \<le> r)" by blast
qed

lemma drop_holder_better:
  assumes wc: "work_conserving q" and dis: "distinct (active q @ queued q)" and b: "better q c r" and h: "h \<noteq> c"
  shows "better (drop_holder h q) c (r - (if h \<in> set (active q) then 1 else 0))"
  using b unfolding better_def
proof (elim disjE exE conjE)
  assume "c \<in> set (active q)"
  then show "c \<in> set (active (drop_holder h q)) \<or> (\<exists>i < length (queued (drop_holder h q)).
      queued (drop_holder h q) ! i = c \<and> rank (drop_holder h q) i \<le> r - (if h \<in> set (active q) then 1 else 0))"
    using drop_holder_lists(6) [OF dis, of h] h by auto
next
  fix i assume i: "i < length (queued q)" "queued q ! i = c" "rank q i \<le> r"
  show "c \<in> set (active (drop_holder h q)) \<or> (\<exists>i < length (queued (drop_holder h q)).
      queued (drop_holder h q) ! i = c \<and> rank (drop_holder h q) i \<le> r - (if h \<in> set (active q) then 1 else 0))"
  proof (cases "h \<in> set (active q)")
    case True
    with drop_holder_rank [OF wc dis True i(1)] i show ?thesis by (cases "rank q i = 0") fastforce+
  next
    case nact: False
    show ?thesis
    proof (cases "h \<in> set (queued q)")
      case True
      obtain k where "k \<le> i" "k < length (filter (\<lambda>c. h \<noteq> c) (queued q))" "filter (\<lambda>c. h \<noteq> c) (queued q) ! k = c"
        using filter_index [OF i(1), of h] i(2) h by auto
      with i(3) True nact show ?thesis by (auto simp: drop_holder_def rank_def intro!: exI [of _ k])
    next
      case False
      have "vacancies (q\<lparr>active := active q\<rparr>) = 0"
        using wc i(1) vacancies_pos [of q] by (auto simp: work_conserving_def)
      with False nact have "drop_holder h q = q" by (simp add: drop_holder_def Let_def)
      with i nact show ?thesis by auto
    qed
  qed
qed

lemma qstep_better:
  assumes inv: "queue_inv w" and wc: "work_conserving (que w)" and step: "qstep w e w'"
    and e: "\<not> is_setmax e" "e \<noteq> ERelease c" and b: "better (que w) c r"
  shows "better (que w') c (r - (case e of ERelease h \<Rightarrow> if h \<in> set (active (que w)) then 1 else 0 | _ \<Rightarrow> 0))"
proof -
  have dis: "distinct (active (que w) @ queued (que w))" using queue_invD(3-5) [OF inv] by simp
  show ?thesis
    using qstep_lists [OF inv step] e b add_client_better [OF wc b] drop_holder_better [OF wc dis b]
      queue_invD(6) [OF inv]
    by (cases e) auto
qed

lemma run_better:
  assumes "run qstep w es w'" "queue_inv w" "work_conserving (que w)" "no_reload es" "ERelease c \<notin> set es"
    "better (que w) c r"
  shows "better (que w') c (r - holder_releases w es)"
  using assms
proof (induction es arbitrary: w r)
  case Nil
  then show ?case by simp
next
  case (Cons e es)
  from Cons.prems(1) obtain v where v: "qstep w e v" "run qstep v es w'" by (auto simp: run_Cons_iff)
  have e: "\<not> is_setmax e" "e \<noteq> ERelease c" "no_reload es" "ERelease c \<notin> set es"
    using Cons.prems by (auto simp: no_reload_def)
  have "work_conserving (que v)"
    by (rule qstep_que_invariant [OF v(1) Cons.prems(2), where P = work_conserving])
      (use Cons.prems(3) e(1) in \<open>auto intro: add_client_wc drop_holder_wc\<close>)
  from Cons.IH [OF v(2) qstep_inv [OF v(1) Cons.prems(2)] this e(3,4)
      qstep_better [OF Cons.prems(2,3) v(1) e(1,2) Cons.prems(6)]]
  show ?case using v(1) by (simp add: qstep_iff_qexec diff_diff_eq)
qed


section \<open>A run to evaluate the properties on\<close>

text \<open>
  A queue for one holder and two waiting clients: four arrivals (one admitted, two waiting, one
  rejected), the rejected client and then the holder release, and two admissions are received.
\<close>

definition demo_events :: "qevent list" where
  "demo_events = [EAcquire 0, EAcquire 1, EAcquire 2, EAcquire 3, ERecv 0 okStatus, ERelease 3, ERelease 0, ERecv 1 okStatus]"

definition demo :: qworld where
  "demo = the (qexecs (New 1 2) demo_events)"

lemma demo_run: "run qstep (New 1 2) demo_events demo"
  unfolding run_iff_qexecs demo_def by code_simp

lemma demo_no_reload: "no_reload demo_events"
  by code_simp

lemma demo_limits: "max_within 1 1 demo_events" "maxQueued_within 2 2 demo_events"
  by (simp_all add: max_within_def maxQueued_within_def demo_events_def)

section \<open>Properties\<close>

text \<open>
  Whatever the clients have done so far and however the limits were changed, \<open>Acquire\<close> and
  \<open>Release\<close> (of any handle that was handed out) return: no send on a closed channel, no second
  close, no index out of range, and no send that would block while the mutex is held.
\<close>

theorem queue_never_faults:
  assumes "run qstep (New mx mq) es w"
  shows "(\<exists>h w'. Acquire w = Inr (h, w')) \<and> (\<forall>h < length (handles w). \<exists>w'. Release h w = Inr w')"
proof -
  have inv: "queue_inv w" by (rule reach_queue_inv [OF assms])
  then have "\<exists>w'. Release h w = Inr w'" if "h < length (handles w)" for h
    using that Release_released Release_Inr by (cases "released (handles w ! h)") blast+
  then show ?thesis using Acquire_Inr [OF inv] by blast
qed

theorem queue_never_faults_witness:
  "(\<exists>h w'. Acquire demo = Inr (h, w')) \<and> (\<exists>w'. Release 1 demo = Inr w')"
proof -
  have "1 < length (handles demo)" by code_simp
  then show ?thesis using queue_never_faults [OF demo_run] by blast
qed

text \<open>A client is in service when it has received \<open>Ok\<close> and its handle is not released.\<close>

definition in_service :: "qevent list \<Rightarrow> qworld \<Rightarrow> hid \<Rightarrow> bool" where
  "in_service es w h \<longleftrightarrow> (\<exists>e \<in> set es. ok_recv h e) \<and> \<not> released (handles w ! h)"

text \<open>
  The connection limit. At no time are more clients in service than the largest limit that was in force,
  and \<open>ActiveLen\<close> does not exceed it either.
\<close>

theorem in_service_bounded:
  assumes run: "run qstep (New mx mq) es w" and B: "max_within B mx es"
  shows "finite {h. in_service es w h} \<and> int (card {h. in_service es w h}) \<le> B \<and> ActiveLen w \<le> B"
proof -
  note S = run_served [OF run]
  have "in_service es w h \<Longrightarrow> h \<in> set (active (que w))" for h
  proof -
    assume h: "in_service es w h"
    then have "filter (ok_recv h) es \<noteq> []" by (auto simp: in_service_def filter_empty_conv)
    with S have "served h w" by (auto split: if_splits)
    with h show ?thesis by (auto simp: served_def in_service_def)
  qed
  then have sub: "{h. in_service es w h} \<subseteq> set (active (que w))" by blast
  then have "card {h. in_service es w h} \<le> card (set (active (que w)))" by (simp add: card_mono)
  also have "\<dots> \<le> length (active (que w))" by (rule card_length)
  finally show ?thesis using run_active_le [OF run B] finite_subset [OF sub] by (simp add: ActiveLen_def)
qed

theorem in_service_bounded_witness:
  "finite {h. in_service demo_events demo h} \<and> int (card {h. in_service demo_events demo h}) \<le> 1 \<and> ActiveLen demo \<le> 1"
  by (rule in_service_bounded [OF demo_run demo_limits(1)])

text \<open>The waiting list never grows beyond the largest \<open>maxQueued\<close> that was in force.\<close>

theorem waiting_bounded:
  assumes "run qstep (New mx mq) es w" and "maxQueued_within B mq es"
  shows "QueuedLen w \<le> B"
  using run_queued_le [OF assms] by (simp add: QueuedLen_def)

theorem waiting_bounded_witness: "QueuedLen demo \<le> 2"
  by (rule waiting_bounded [OF demo_run demo_limits(2)])

text \<open>
  No lost wake-up: as long as the limits are not changed, nobody waits while there is room
  (and with \<open>max = 0\<close>, nobody ever waits).
\<close>

theorem no_lost_wakeup:
  assumes "run qstep (New mx mq) es w" and "no_reload es"
  shows "QueuedLen w = 0 \<or> GetMax w \<noteq> 0 \<and> GetMax w \<le> ActiveLen w"
  using run_work_conserving [OF assms]
  by (auto simp: work_conserving_def has_room_def QueuedLen_def GetMax_def ActiveLen_def)

theorem no_lost_wakeup_witness: "QueuedLen demo = 0 \<or> GetMax demo \<noteq> 0 \<and> GetMax demo \<le> ActiveLen demo"
  by (rule no_lost_wakeup [OF demo_run demo_no_reload])

text \<open>
  C6. First come, first served: as long as the limits are not changed, a client that a step
  admits arrived before every client that is still waiting (handles are numbered by arrival).
\<close>

theorem first_come_first_served:
  assumes run: "run qstep (New mx mq) es w" "no_reload es" and step: "qstep w e w'" "\<not> is_setmax e"
    and new: "h \<in> set (active (que w'))" "h \<notin> set (active (que w))" and wait: "k \<in> set (queued (que w'))"
  shows "h < k"
proof -
  have inv: "queue_inv w" by (rule reach_queue_inv [OF run(1)])
  have wc: "work_conserving (que w)" by (rule run_work_conserving [OF run])
  have L: "lists_ok (que w) (length (chans w))" by (rule queue_inv_lists_ok [OF inv])
  show ?thesis
    using qstep_lists [OF inv step(1)] step(2) new wait wc drop_holder_fifo [OF run_sorted [OF run(1)] L]
    by (cases e) (auto simp: add_client_def work_conserving_def split: if_splits)
qed

text \<open>Three arrivals at a queue for one holder, and the world after the holder's release.\<close>

definition line_events :: "qevent list" where "line_events = [EAcquire 0, EAcquire 1, EAcquire 2]"
definition line :: qworld where "line = the (qexecs (New 1 2) line_events)"
definition line' :: qworld where "line' = the (qexec line (ERelease 0))"

lemma line_run: "run qstep (New 1 2) line_events line"
  unfolding run_iff_qexecs line_def by code_simp

lemma line_step: "qstep line (ERelease 0) line'"
  unfolding qstep_iff_qexec line'_def by code_simp

lemma line_facts:
  "no_reload line_events" "1 \<in> set (active (que line'))" "1 \<notin> set (active (que line))" "2 \<in> set (queued (que line'))"
  by code_simp+

theorem first_come_first_served_witness:
  "1 \<in> set (active (que line')) \<and> 1 \<notin> set (active (que line)) \<and> 2 \<in> set (queued (que line')) \<and> (1::hid) < 2"
  using first_come_first_served [OF line_run line_facts(1) line_step _ line_facts(2-4)] line_facts by simp

text \<open>
  Releasing a handle twice is releasing it once, whatever happens in between: a later
  \<open>Release\<close> (the cleanup after the deferred call) changes nothing and frees no second slot.
\<close>

theorem release_idempotent:
  assumes run: "run qstep (New mx mq) es w" and rel: "Release h w = Inr w1" and later: "run qstep w1 fs w2"
  shows "Release h w2 = Inr w2"
proof -
  have inv: "queue_inv w" by (rule reach_queue_inv [OF run])
  have h: "h < length (handles w)" using rel by (auto simp: Release_def split: if_splits)
  have "h < length (handles w1) \<and> released (handles w1 ! h)"
    using rel h Release_released [OF h] Release_Inr [OF inv h] by (cases "released (handles w ! h)") auto
  then have "queue_inv w1 \<and> h < length (handles w1) \<and> released (handles w1 ! h)"
    using Release_inv [OF inv rel] by simp
  with later have "queue_inv w2 \<and> h < length (handles w2) \<and> released (handles w2 ! h)"
    by (rule run_invariant) (use qstep_inv qstep_released in blast)
  then show ?thesis using Release_released by blast
qed

theorem release_idempotent_witness: "Release 0 line = Inr line' \<and> Release 0 line' = Inr line'"
  using release_idempotent [OF line_run, of 0 line' "[]" line'] line_step by simp

text \<open>
  Positions are exact: as long as the limits are not changed, the position that a waiting
  client reads from its channel is its present one, the number of holders above the limit plus
  the number of clients ahead of it, and it is not negative.
\<close>

theorem position_exact:
  assumes run: "run qstep (New mx mq) es w" "no_reload es"
    and recv: "Recv h w = Some (st, w')" and wait: "h \<in> set (queued (que w))"
  shows "\<exists>j < length (queued (que w)). queued (que w) ! j = h \<and> 0 \<le> Index st \<and>
    Index st = ActiveLen w - GetMax w + int j"
proof -
  have inv: "queue_inv w" by (rule reach_queue_inv [OF run(1)])
  have h: "h < length (chans w)" "\<not> cclosed (chans w ! h)" "hch (handles w ! h) = h"
    using queue_invD(7) [OF inv wait] queue_invD(2) [OF inv, of h] by auto
  obtain j where j: "j < length (queued (que w))" "queued (que w) ! j = h" using wait by (meson in_set_conv_nth)
  have "cbuf (chans w ! h) = Some st"
    using recv h by (auto simp: Recv_def chan_recv_def split: if_splits option.splits)
  with run_mail_exact [OF run] j have "Index st = rank (que w) j" by (auto simp: mail_exact_def)
  moreover have "0 \<le> rank (que w) j"
    using run_work_conserving [OF run] j by (auto simp: work_conserving_def has_room_def rank_def)
  ultimately show ?thesis using j by (auto simp: rank_def ActiveLen_def GetMax_def)
qed

theorem position_exact_witness:
  "Recv 2 line = Some (\<lparr>Index = 1, Total = 2, Ok = False, Full = False\<rparr>, snd (the (Recv 2 line))) \<and>
   (\<exists>j < length (queued (que line)). queued (que line) ! j = 2 \<and> (0::int) \<le> 1 \<and> 1 = ActiveLen line - GetMax line + int j)"
proof -
  have r: "Recv 2 line = Some (\<lparr>Index = 1, Total = 2, Ok = False, Full = False\<rparr>, snd (the (Recv 2 line)))"
    and q: "2 \<in> set (queued (que line))" by code_simp+
  show ?thesis using position_exact [OF line_run line_facts(1) r q] r by simp
qed

text \<open>
  C7. Progress: as long as the limits are not changed, a waiting client that does not give up is
  admitted once more slots have been given back than its position says; arrivals, receives and
  other clients giving up cannot hold it back.
\<close>

theorem waiting_client_admitted:
  assumes run: "run qstep (New mx mq) es w" "no_reload es"
    and j: "j < length (queued (que w))" "queued (que w) ! j = c"
    and later: "run qstep w fs w'" "no_reload fs" "ERelease c \<notin> set fs"
    and enough: "ActiveLen w - GetMax w + int j < holder_releases w fs"
  shows "c \<in> set (active (que w'))"
proof -
  have inv: "queue_inv w" by (rule reach_queue_inv [OF run(1)])
  have wc: "work_conserving (que w)" by (rule run_work_conserving [OF run])
  have "run qstep (New mx mq) (es @ fs) w'" using run(1) later(1) by (auto simp: run_append_iff)
  then have wc': "work_conserving (que w')" using run(2) later(2) by (auto intro: run_work_conserving)
  have "better (que w) c (rank (que w) j)" using j by (auto simp: better_def)
  from run_better [OF later(1) inv wc later(2,3) this]
  have "c \<in> set (active (que w')) \<or> (\<exists>i < length (queued (que w')). rank (que w') i < 0)"
    using enough by (force simp: better_def rank_def ActiveLen_def GetMax_def)
  moreover have "0 \<le> rank (que w') i" if "i < length (queued (que w'))" for i
    using wc' that by (auto simp: work_conserving_def has_room_def rank_def)
  ultimately show ?thesis by force
qed

theorem waiting_client_admitted_witness:
  "queued (que line) ! 1 = 2 \<and> 2 \<in> set (active (que (the (qexecs line [ERelease 0, EAcquire 3, ERelease 1]))))"
proof -
  define fs where "fs = [ERelease 0, EAcquire 3, ERelease 1]"
  have f: "1 < length (queued (que line))" "queued (que line) ! 1 = 2" by code_simp+
  have r: "run qstep line fs (the (qexecs line fs))" unfolding run_iff_qexecs fs_def by code_simp
  have n: "no_reload fs" unfolding fs_def by code_simp
  have m: "ERelease 2 \<notin> set fs" by (simp add: fs_def)
  have e: "ActiveLen line - GetMax line + int 1 < holder_releases line fs" unfolding fs_def by code_simp
  show ?thesis using waiting_client_admitted [OF line_run line_facts(1) f r n m e] f by (simp add: fs_def)
qed


text \<open>
  An admission is told once and means a slot: along any run a handle receives \<open>Ok\<close> at most
  once, and from then until its release it is in the active list.
\<close>

theorem admitted_once:
  assumes "run qstep (New mx mq) es w"
  shows "length (filter (ok_recv h) es) \<le> 1 \<and> (in_service es w h \<longrightarrow> h \<in> set (active (que w)))"
proof -
  note S = run_served [OF assms]
  have "length (filter (ok_recv h) es) \<le> 1" using S by simp
  moreover have "h \<in> set (active (que w))" if h: "in_service es w h"
  proof -
    have "filter (ok_recv h) es \<noteq> []" using h by (auto simp: in_service_def filter_empty_conv)
    with S have "served h w" by (auto split: if_splits)
    with h show ?thesis by (auto simp: served_def in_service_def)
  qed
  ultimately show ?thesis by blast
qed

theorem admitted_once_witness:
  "length (filter (ok_recv 1) demo_events) \<le> 1 \<and> in_service demo_events demo 1 \<and> 1 \<in> set (active (que demo))"
proof -
  have "in_service demo_events demo 1" by code_simp
  then show ?thesis using admitted_once [OF demo_run, of 1] by blast
qed

text \<open>
  C5. Refinement: every run of the queue is a run of the abstract queue with the same events,
  from the empty queue of the same limits, where a release lets in the front of the line as far
  as the limit allows and leaves nobody waiting while there is room.
\<close>

theorem queue_refines_spec:
  assumes "run qstep (New mx mq) es w"
  shows "run spec_step \<lparr>limit = mx, capacity = mq, holders = {}, waiting = []\<rparr> es (abs_queue (que w))"
proof -
  have "abs_queue (que (New mx mq)) = \<lparr>limit = mx, capacity = mq, holders = {}, waiting = []\<rparr>"
    by (simp add: abs_queue_def New_def)
  then show ?thesis using run_refines [OF assms New_inv] by simp
qed

theorem queue_refines_spec_witness:
  "run spec_step \<lparr>limit = 1, capacity = 2, holders = {}, waiting = []\<rparr> demo_events (abs_queue (que demo))"
  by (rule queue_refines_spec [OF demo_run])

text \<open>
  What \<open>Acquire\<close> answers: the new handle's channel already holds the answer, for each of the
  three outcomes.
\<close>

lemma Acquire_recv:
  assumes inv: "queue_inv w" and acq: "Acquire w = Inr (h, w')"
  shows "\<exists>st w''. Recv h w' = Some (st, w'') \<and> que w'' = que w' \<and>
    (if GetMax w = 0 \<or> ActiveLen w < GetMax w
     then st = okStatus \<and> ActiveLen w' = ActiveLen w + 1 \<and> QueuedLen w' = QueuedLen w
     else if 0 < GetMaxQueued w \<and> GetMaxQueued w \<le> QueuedLen w
     then st = fullStatus \<and> que w' = que w
     else st = \<lparr>Index = ActiveLen w - GetMax w + QueuedLen w, Total = ActiveLen w - GetMax w + QueuedLen w + 1,
                Ok = False, Full = False\<rparr> \<and>
          ActiveLen w' = ActiveLen w \<and> QueuedLen w' = QueuedLen w + 1 \<and> qmax (que w') = qmax (que w))"
proof -
  have h: "h = length (chans w)" and w': "w' = \<lparr>que = add_client h (que w), chans = chans w @ [first_chan h (que w)],
      handles = handles w @ [\<lparr>hch = h, released = False\<rparr>]\<rparr>"
    using Acquire_InrD [OF inv acq] by auto
  have recv: "Recv h w' = map_option (\<lambda>(st, cs). (st, w'\<lparr>chans := cs\<rparr>)) (chan_recv zeroStatus h (chans w'))"
    using queue_invD(1) [OF inv] h by (simp add: Recv_def w' nth_append)
  show ?thesis
    unfolding recv
    by (auto simp: w' h chan_recv_def first_chan_def add_client_def has_room_def rejects_def nth_append
        GetMax_def ActiveLen_def GetMaxQueued_def QueuedLen_def position_def Let_def)
qed

text \<open>
  C37. Raising the limit strands the line: \<open>SetMax\<close> admits nobody and tells nobody, so clients
  that would fit under the new limit stay in the line (until some holder releases), and an
  arrival after the reload takes a slot ahead of all of them.
\<close>

theorem raised_limit_is_overtaken:
  assumes run: "run qstep (New mx mq) es w" and room: "ActiveLen w < m"
    and acq: "Acquire (SetMax m k w) = Inr (h, w')"
  shows "queued (que (SetMax m k w)) = queued (que w) \<and> chans (SetMax m k w) = chans w \<and>
    h \<in> set (active (que w')) \<and> queued (que w') = queued (que w)"
proof -
  have "queue_inv (SetMax m k w)" using reach_queue_inv [OF run] by (simp add: SetMax_inv)
  from Acquire_InrD [OF this acq] room show ?thesis
    by (simp add: SetMax_def add_client_def has_room_def ActiveLen_def)
qed

theorem raised_limit_is_overtaken_witness:
  "queued (que line) = [1, 2] \<and> 3 \<in> set (active (que (snd (projr (Acquire (SetMax 5 2 line)))))) \<and>
   queued (que (snd (projr (Acquire (SetMax 5 2 line))))) = [1, 2]"
proof -
  have a: "Acquire (SetMax 5 2 line) = Inr (3, snd (projr (Acquire (SetMax 5 2 line))))" by code_simp
  have q: "queued (que line) = [1, 2]" and r: "ActiveLen line < 5" by code_simp+
  show ?thesis using raised_limit_is_overtaken [OF line_run r a] q by simp
qed

text \<open>
  After such a reload the announced positions are wrong: when a waiting client gives up,
  each of the others that would fit under the new limit is told a negative index and a negative
  total, and still waits.
\<close>

theorem raised_limit_negative_position:
  assumes run: "run qstep (New mx mq) es w" and gap: "ActiveLen w + QueuedLen w \<le> m" and h: "h \<in> set (queued (que w))"
  shows "\<exists>w'. Release h (SetMax m k w) = Inr w' \<and> set (queued (que w')) = set (queued (que w)) - {h} \<and>
    (\<forall>c \<in> set (queued (que w')). \<exists>st. cbuf (chans w' ! c) = Some st \<and> \<not> Ok st \<and> Index st < 0 \<and> Total st < 0)"
proof -
  let ?v = "SetMax m k w"
  have inv: "queue_inv ?v" using reach_queue_inv [OF run] by (simp add: SetMax_inv)
  have hv: "h < length (handles ?v)" "\<not> released (handles ?v ! h)"
    using queue_invD(1) [OF inv] queue_invD(7) [OF inv, of h] h by (auto simp: SetMax_def)
  from Release_Inr [OF inv hv] obtain w' where w': "Release h ?v = Inr w'" "que w' = drop_holder h (que ?v)"
    "\<forall>j < length (queued (que w')). cbuf (chans w' ! (queued (que w') ! j)) = Some (position (que w') j)" by auto
  have q: "que w' = (que ?v)\<lparr>queued := filter (\<lambda>c. h \<noteq> c) (queued (que w))\<rparr>"
    using w'(2) h by (simp add: drop_holder_def SetMax_def)
  have less: "length (queued (que w')) < length (queued (que w))"
    using length_filter_neq_less [OF h] q by simp
  have "\<exists>st. cbuf (chans w' ! c) = Some st \<and> \<not> Ok st \<and> Index st < 0 \<and> Total st < 0" if c: "c \<in> set (queued (que w'))" for c
  proof -
    obtain j where j: "j < length (queued (que w'))" "queued (que w') ! j = c" using c by (meson in_set_conv_nth)
    have "Index (position (que w') j) < 0 \<and> Total (position (que w') j) < 0 \<and> \<not> Ok (position (que w') j)"
      using j less gap q by (simp add: position_def Let_def ActiveLen_def QueuedLen_def SetMax_def)
    with w'(3) j show ?thesis by auto
  qed
  moreover have "set (queued (que w')) = set (queued (que w)) - {h}" using q by auto
  ultimately show ?thesis using w'(1) by blast
qed

theorem raised_limit_negative_position_witness:
  "\<exists>w' st. Release 1 (SetMax 3 2 line) = Inr w' \<and> set (queued (que w')) = {2} \<and>
    cbuf (chans w' ! 2) = Some st \<and> \<not> Ok st \<and> Index st < 0 \<and> Total st < 0"
proof -
  have g: "ActiveLen line + QueuedLen line \<le> 3" "1 \<in> set (queued (que line))" by code_simp+
  have "queued (que line) = [1, 2]" by code_simp
  then have "set (queued (que line)) - {1} = {2}" by auto
  then show ?thesis using raised_limit_negative_position [OF line_run g, of 2] by auto
qed

text \<open>With a negative limit no message is an admission.\<close>

definition closed_queue :: "qworld \<Rightarrow> bool" where
  "closed_queue w \<longleftrightarrow> queue_inv w \<and> qmax (que w) < 0 \<and> active (que w) = [] \<and>
     (\<forall>h < length (chans w). \<forall>st. cbuf (chans w ! h) = Some st \<longrightarrow> \<not> Ok st)"

lemma qstep_closed_queue:
  assumes c: "closed_queue w" and step: "qstep w e w'" and e: "\<not> is_setmax e"
  shows "closed_queue w' \<and> \<not> ok_recv h e"
proof -
  have inv: "queue_inv w" and neg: "qmax (que w) < 0" "active (que w) = []" using c by (simp_all add: closed_queue_def)
  have nr: "\<not> has_room (que w)" using neg by (simp add: has_room_def)
  have L: "queue_inv w'" "qmax (que w') < 0" "active (que w') = []"
    using qstep_inv [OF step inv] qstep_lists [OF inv step] e neg nr
    by (cases e; simp add: add_client_def drop_holder_def vacancies_def Let_def)+
  have M: "\<forall>st. cbuf (chans w' ! k) = Some st \<longrightarrow> \<not> Ok st" if k: "k < length (chans w')" for k
  proof (cases e)
    case (EAcquire i)
    with step have w': "chans w' = chans w @ [first_chan (length (chans w)) (que w)]"
      using Acquire_InrD(2) [OF inv] by simp
    show ?thesis using c k nr
      by (cases "k < length (chans w)")
        (auto simp: w' closed_queue_def nth_append first_chan_def fullStatus_def position_def Let_def split: if_splits)
  next
    case (ERelease i)
    then have r: "Release i w = Inr w'" using step by simp
    then have i: "i < length (handles w)" by (auto simp: Release_def split: if_splits)
    show ?thesis
    proof (cases "released (handles w ! i)")
      case True
      then show ?thesis using r c k Release_released [OF i] by (simp add: closed_queue_def)
    next
      case False
      from Release_Inr [OF inv i False] r have R: "length (chans w') = length (chans w)"
        "\<forall>j < length (queued (que w')). cbuf (chans w' ! (queued (que w') ! j)) = Some (position (que w') j)"
        "k \<notin> set (queued (que w')) \<Longrightarrow> chans w' ! k = chans w ! k" using L(3) by auto
      show ?thesis
      proof (cases "k \<in> set (queued (que w'))")
        case True
        then obtain j where "j < length (queued (que w'))" "queued (que w') ! j = k" by (meson in_set_conv_nth)
        with R(2) show ?thesis by (auto simp: position_def Let_def)
      next
        case False
        with R c k show ?thesis by (simp add: closed_queue_def)
      qed
    qed
  next
    case (ERecv i st)
    then have recv: "Recv i w = Some (st, w')" using step by simp
    show ?thesis using c k Recv_mail [OF recv] by (auto simp: closed_queue_def)
  next
    case (ESetMax m k)
    with e show ?thesis by simp
  qed
  have "\<not> ok_recv h e"
  proof
    assume "ok_recv h e"
    then obtain st where "e = ERecv h st" "Ok st" by (auto simp: ok_recv_def split: qevent.splits)
    with step c queue_invD(1) [OF inv] queue_invD(2) [OF inv, of h] show False
      by (auto simp: closed_queue_def Recv_def chan_recv_def zeroStatus_def not_le split: if_splits option.splits)
  qed
  with L M show ?thesis by (auto simp: closed_queue_def)
qed

text \<open>
  A negative \<open>max\<close> (which the configuration accepts) closes the upstream: while it is in
  force the active list stays empty and no client ever receives \<open>Ok\<close>.
\<close>

theorem negative_max_admits_nobody:
  assumes run: "run qstep (New mx mq) es w" "no_reload es" and neg: "mx < 0"
  shows "ActiveLen w = 0 \<and> \<not> (\<exists>e \<in> set es. ok_recv h e)"
proof -
  have "closed_queue w \<and> (\<forall>e \<in> set es. \<not> ok_recv h e)"
    using run neg
  proof (induction "New mx mq" es w rule: run.induct)
    case run_Nil
    then show ?case by (simp add: closed_queue_def New_inv) (simp add: New_def)
  next
    case (run_snoc es t e u)
    then show ?case using qstep_closed_queue [of t e u h] by (auto simp: no_reload_def)
  qed
  then show ?thesis by (auto simp: closed_queue_def ActiveLen_def)
qed

theorem negative_max_admits_nobody_witness:
  "ActiveLen (the (qexecs (New (-1) 0) [EAcquire 0])) = 0 \<and> \<not> (\<exists>e \<in> set [EAcquire 0]. ok_recv 0 e)"
proof -
  have r: "run qstep (New (-1) 0) [EAcquire 0] (the (qexecs (New (-1) 0) [EAcquire 0]))"
    unfolding run_iff_qexecs by code_simp
  show ?thesis by (rule negative_max_admits_nobody [OF r]) (code_simp, simp)
qed

end
