(* ===== verification/Net.thy ===== *)
theory Net
  imports Prelude
begin

text \<open>
  What the program uses of Go's \<open>net\<close> package (errors, addresses, connections) and
  \<open>pkg/server/utils.go\<close>: deadlines, reading a line, the PROXY protocol header, default ports,
  closing. A connection is its script: the results that successive \<open>Read\<close> and \<open>Write\<close> calls
  have, chosen by the peer and the network, and the record of what was done to it.
\<close>

section \<open>Errors\<close>

text \<open>
  \<open>Errorf m\<close> is \<open>fmt.Errorf\<close> without a wrapped error and \<open>Errorq m s\<close> the same with a last operand
  \<open>s\<close> printed by \<open>%q\<close>; \<open>Wrapf p e\<close> is \<open>fmt.Errorf("p: %w", e)\<close> and \<open>Wrapsf p e s\<close> has a text \<open>s\<close> after
  the wrapped error. \<open>IOError\<close> stands for the errors of the network and the file system other than
  \<open>io.EOF\<close> and \<open>net.ErrClosed\<close>.
\<close>

datatype goerr =
    EOF | ErrClosed | IOError string | Errorf string | Errorq string string
  | Wrapf string goerr | Wrapsf string goerr string

text \<open>\<open>Error()\<close>; Go's quoting (\<open>strconv.Quote\<close>) is a parameter.\<close>

fun err_text :: "(string \<Rightarrow> string) \<Rightarrow> goerr \<Rightarrow> string" where
  "err_text Quote EOF = ''EOF''"
| "err_text Quote ErrClosed = ''use of closed network connection''"
| "err_text Quote (IOError m) = m"
| "err_text Quote (Errorf m) = m"
| "err_text Quote (Errorq m s) = m @ Quote s"
| "err_text Quote (Wrapf p e) = p @ '': '' @ err_text Quote e"
| "err_text Quote (Wrapsf p e s) = p @ '': '' @ err_text Quote e @ s"

text \<open>\<open>errors.Is(err, net.ErrClosed)\<close>\<close>

fun is_ErrClosed :: "goerr \<Rightarrow> bool" where
  "is_ErrClosed ErrClosed = True"
| "is_ErrClosed (Wrapf p e) = is_ErrClosed e"
| "is_ErrClosed (Wrapsf p e s) = is_ErrClosed e"
| "is_ErrClosed e = False"

section \<open>IP addresses\<close>

type_synonym byte = "8 word"
type_synonym ip = "byte list"   \<comment> \<open>\<open>net.IP\<close>; nil is the empty list\<close>

definition v4InV6Prefix :: ip where
  "v4InV6Prefix = [0, 0, 0, 0, 0, 0, 0, 0, 0, 0, 255, 255]"

definition IPv4 :: "byte \<Rightarrow> byte \<Rightarrow> byte \<Rightarrow> byte \<Rightarrow> ip" where
  "IPv4 a b c d = v4InV6Prefix @ [a, b, c, d]"

definition To4 :: "ip \<Rightarrow> ip option" where
  "To4 p = (if length p = 4 then Some p
            else if length p = 16 \<and> take 12 p = v4InV6Prefix then Some (drop 12 p) else None)"

definition To16 :: "ip \<Rightarrow> ip option" where
  "To16 p = (if length p = 4 then Some (v4InV6Prefix @ p) else if length p = 16 then Some p else None)"

definition show_byte :: "byte \<Rightarrow> string" where
  "show_byte b = show_nat (unat b)"

definition dotted :: "ip \<Rightarrow> string" where
  "dotted p = (case p of [a, b, c, d] \<Rightarrow>
      show_byte a @ ''.'' @ show_byte b @ ''.'' @ show_byte c @ ''.'' @ show_byte d | _ \<Rightarrow> [])"

definition hex_digit :: "nat \<Rightarrow> char" where
  "hex_digit n = (if n < 10 then char_of (48 + n) else char_of (87 + n))"

fun show_hex :: "nat \<Rightarrow> string" where
  "show_hex n = (if n < 16 then [hex_digit n] else show_hex (n div 16) @ [hex_digit (n mod 16)])"

declare show_hex.simps [simp del]

fun groups :: "ip \<Rightarrow> nat list" where
  "groups (a # b # p) = (256 * unat a + unat b) # groups p"
| "groups p = []"

text \<open>The text of a 16-byte address: the first longest run of two or more zero groups is \<open>::\<close>.\<close>

definition zero_run :: "nat list \<Rightarrow> nat" where
  "zero_run gs = length (takeWhile (\<lambda>g. g = 0) gs)"

fun longest_zeros :: "nat \<Rightarrow> nat list \<Rightarrow> nat \<times> nat \<Rightarrow> nat \<times> nat" where
  "longest_zeros i [] best = best"
| "longest_zeros i (g # gs) (start, len) =
     longest_zeros (Suc i) gs (let l = zero_run (g # gs) in if 2 \<le> l \<and> len < l then (i, l) else (start, len))"

fun colon_join :: "string list \<Rightarrow> string" where
  "colon_join [] = []"
| "colon_join [x] = x"
| "colon_join (x # y # xs) = x @ '':'' @ colon_join (y # xs)"

definition colon_text :: "ip \<Rightarrow> string" where
  "colon_text p = (let gs = groups p; (start, len) = longest_zeros 0 gs (0, 0); sh = map show_hex gs in
     if len = 0 then colon_join sh
     else colon_join (take start sh) @ ''::'' @ colon_join (drop (start + len) sh))"

text \<open>\<open>IP.String\<close>\<close>

definition IP_String :: "ip \<Rightarrow> string" where
  "IP_String p =
     (if p = [] then ''<nil>''
      else if length p \<noteq> 4 \<and> length p \<noteq> 16
           then ''?'' @ concat (map (\<lambda>b. [hex_digit (unat b div 16), hex_digit (unat b mod 16)]) p)
      else case To4 p of Some p4 \<Rightarrow> dotted p4 | None \<Rightarrow> colon_text p)"

lemma To4_IPv4 [simp]: "To4 (IPv4 a b c d) = Some [a, b, c, d]"
  by (simp add: To4_def IPv4_def v4InV6Prefix_def)

lemma To4_four [simp]: "length p = 4 \<Longrightarrow> To4 p = Some p"
  by (simp add: To4_def)

lemma To4_length: "To4 p = Some q \<Longrightarrow> length q = 4"
  by (auto simp: To4_def split: if_splits)

lemma colon_join_colon: "2 \<le> length xs \<Longrightarrow> CHR '':'' \<in> set (colon_join xs)"
  by (induction xs rule: colon_join.induct) auto

text \<open>
  \<open>net.ParseIP\<close>: dotted IPv4 without leading zeros, or IPv6 text, where \<open>::\<close> stands for at least
  one group of zeros and the last four bytes may be dotted; nil for anything else, also for an
  address with a zone. \<open>v\<close> and \<open>n\<close> are the value and the digits of the current field.
\<close>

fun parse_v4 :: "nat \<Rightarrow> nat \<Rightarrow> byte list \<Rightarrow> string \<Rightarrow> byte list option" where
  "parse_v4 v n fs [] = (if length fs = 3 \<and> 0 < n then Some (fs @ [of_nat v]) else None)"
| "parse_v4 v n fs (c # s) =
     (if is_digit c then
        (if n = 1 \<and> v = 0 then None
         else if 255 < 10 * v + digit_val c then None
         else parse_v4 (10 * v + digit_val c) (Suc n) fs s)
      else if c = CHR ''.'' then
        (if n = 0 \<or> s = [] \<or> length fs = 3 then None else parse_v4 0 0 (fs @ [of_nat v]) s)
      else None)"

definition hex_val :: "char \<Rightarrow> nat option" where
  "hex_val c = (let n = of_char c :: nat in
     if 48 \<le> n \<and> n < 58 then Some (n - 48)
     else if 97 \<le> n \<and> n < 103 then Some (n - 87)
     else if 65 \<le> n \<and> n < 71 then Some (n - 55) else None)"

definition is_hex :: "char \<Rightarrow> bool" where
  "is_hex c \<longleftrightarrow> hex_val c \<noteq> None"

definition read_hex :: "string \<Rightarrow> nat" where
  "read_hex s = foldl (\<lambda>a c. 16 * a + (case hex_val c of Some d \<Rightarrow> d | None \<Rightarrow> 0)) 0 s"

function parse_v6 :: "byte list \<Rightarrow> nat option \<Rightarrow> string \<Rightarrow> (byte list \<times> nat option \<times> string) option" where
  "parse_v6 acc ell s =
     (if 16 \<le> length acc then Some (acc, ell, s)
      else let ds = takeWhile is_hex s; r = dropWhile is_hex s in
        if ds = [] \<or> 4 < length ds then None
        else if r \<noteq> [] \<and> hd r = CHR ''.'' then
          (if ell = None \<and> length acc \<noteq> 12 then None
           else if 16 < length acc + 4 then None
           else map_option (\<lambda>q. (acc @ q, ell, [])) (parse_v4 0 0 [] s))
        else
          let acc1 = acc @ [of_nat (read_hex ds div 256), of_nat (read_hex ds mod 256)] in
          if r = [] then Some (acc1, ell, [])
          else if hd r \<noteq> CHR '':'' \<or> tl r = [] then None
          else if hd (tl r) = CHR '':'' then
            (if ell \<noteq> None then None
             else if tl (tl r) = [] then Some (acc1, Some (length acc1), [])
             else parse_v6 acc1 (Some (length acc1)) (tl (tl r)))
          else parse_v6 acc1 ell (tl r))"
  by pat_completeness auto
termination by (relation "measure (\<lambda>(acc, ell, s). 16 - length acc)") auto

declare parse_v6.simps [simp del]

definition ParseIP :: "string \<Rightarrow> ip" where
  "ParseIP s =
     (if CHR ''%'' \<in> set s then []
      else case find (\<lambda>c. c = CHR ''.'' \<or> c = CHR '':'') s of
        None \<Rightarrow> []
      | Some c \<Rightarrow>
          if c = CHR ''.'' then (case parse_v4 0 0 [] s of Some q \<Rightarrow> v4InV6Prefix @ q | None \<Rightarrow> [])
          else if s = ''::'' then replicate 16 0
          else (case (if hasPrefix s ''::'' then parse_v6 [] (Some 0) (drop 2 s) else parse_v6 [] None s) of
                  None \<Rightarrow> []
                | Some (acc, ell, r) \<Rightarrow>
                    if r \<noteq> [] then []
                    else case ell of
                      None \<Rightarrow> if length acc < 16 then [] else acc
                    | Some e \<Rightarrow> if length acc < 16 then take e acc @ replicate (16 - length acc) 0 @ drop e acc else []))"

section \<open>Addresses\<close>

text \<open>\<open>net.Addr\<close>: \<open>*net.TCPAddr\<close> (IP, port, zone), \<open>*net.UnixAddr\<close>, or any other (network, text).\<close>

datatype netaddr = TCPAddr ip nat string | UnixAddr string | OtherAddr string string

text \<open>\<open>net.SplitHostPort\<close> (the error's reason, or host and port) and \<open>net.JoinHostPort\<close>.\<close>

definition missingPort :: string where "missingPort = ''missing port in address''"
definition tooManyColons :: string where "tooManyColons = ''too many colons in address''"

definition lastIndexByte :: "char \<Rightarrow> string \<Rightarrow> nat option" where
  "lastIndexByte c s = map_option (\<lambda>k. length s - Suc k) (indexByte c (rev s))"

definition SplitHostPort :: "string \<Rightarrow> string + string \<times> string" where
  "SplitHostPort hp =
     (case lastIndexByte (CHR '':'') hp of
        None \<Rightarrow> Inl missingPort
      | Some i \<Rightarrow>
          let check = (\<lambda>host j k.
                if CHR ''['' \<in> set (drop j hp) then Inl (''unexpected '' @ [CHR 0x27] @ ''['' @ [CHR 0x27] @ '' in address'')
                else if CHR '']'' \<in> set (drop k hp) then Inl (''unexpected '' @ [CHR 0x27] @ '']'' @ [CHR 0x27] @ '' in address'')
                else Inr (host, drop (Suc i) hp))
          in if hasPrefix hp ''['' then
               (case indexByte (CHR '']'') hp of
                  None \<Rightarrow> Inl (''missing '' @ [CHR 0x27] @ '']'' @ [CHR 0x27] @ '' in address'')
                | Some e \<Rightarrow>
                    if Suc e = length hp then Inl missingPort
                    else if Suc e = i then check (take (e - 1) (drop 1 hp)) 1 (Suc e)
                    else if hp ! Suc e = CHR '':'' then Inl tooManyColons else Inl missingPort)
             else if CHR '':'' \<in> set (take i hp) then Inl tooManyColons
             else check (take i hp) 0 0)"

definition JoinHostPort :: "string \<Rightarrow> string \<Rightarrow> string" where
  "JoinHostPort host port =
     (if CHR '':'' \<in> set host then ''['' @ host @ '']:'' @ port else host @ '':'' @ port)"

text \<open>\<open>Addr.String\<close>\<close>

fun addr_String :: "netaddr \<Rightarrow> string" where
  "addr_String (TCPAddr p port zone) =
     JoinHostPort ((if p = [] then [] else IP_String p) @ (if zone = [] then [] else ''%'' @ zone)) (show_nat port)"
| "addr_String (UnixAddr name) = name"
| "addr_String (OtherAddr network text) = text"

text \<open>\<open>netAddrToString\<close>\<close>

fun netAddrToString :: "netaddr \<Rightarrow> string" where
  "netAddrToString (TCPAddr p port zone) = IP_String p"
| "netAddrToString (UnixAddr name) = addr_String (UnixAddr name)"
| "netAddrToString (OtherAddr network text) = addr_String (OtherAddr network text)"

text \<open>\<open>generateProxyProtocolHeader\<close>; \<open>%T\<close> of an address of another type is its network's name.\<close>

fun header_endpoint :: "netaddr \<Rightarrow> string + ip \<times> nat" where
  "header_endpoint (TCPAddr p port zone) = Inr (p, port)"
| "header_endpoint (UnixAddr name) = Inr (IPv4 127 0 0 1, 1)"
| "header_endpoint (OtherAddr network text) = Inl network"

definition generateProxyProtocolHeader :: "netaddr \<Rightarrow> netaddr \<Rightarrow> goerr + string" where
  "generateProxyProtocolHeader sourceAddr destAddr =
     (case header_endpoint sourceAddr of
        Inl t \<Rightarrow> Inl (Errorf (''invalid source address type '' @ t))
      | Inr (sourceIP, sourcePort) \<Rightarrow>
          (case header_endpoint destAddr of
             Inl t \<Rightarrow> Inl (Errorf (''invalid destination address type '' @ t))
           | Inr (destIP, destPort) \<Rightarrow>
               let ipVersion = (if To4 sourceIP = None then ''TCP6'' else ''TCP4'')
               in Inr (''PROXY '' @ ipVersion @ '' '' @ IP_String sourceIP @ '' '' @ IP_String destIP @ '' '' @
                       show_nat sourcePort @ '' '' @ show_nat destPort @ [CR, LF])))"

text \<open>\<open>addDefaultTCPPort\<close>\<close>

definition addDefaultTCPPort :: "string \<Rightarrow> string \<Rightarrow> string" where
  "addDefaultTCPPort addr defaultPort =
     (if hasPrefix addr ''/'' then addr
      else case SplitHostPort addr of
             Inl why \<Rightarrow> if why = missingPort then JoinHostPort addr defaultPort else addr
           | Inr (host, port) \<Rightarrow> addr)"

text \<open>
  \<open>validateTCPOrUnixAddr\<close>: Go's resolvers (a name lookup, for TCP) are parameters.
\<close>

definition validateTCPOrUnixAddr :: "(string \<Rightarrow> goerr option) \<Rightarrow> (string \<Rightarrow> goerr option) \<Rightarrow> string \<Rightarrow> goerr option" where
  "validateTCPOrUnixAddr ResolveUnixAddr ResolveTCPAddr addr =
     (if hasPrefix addr ''/'' then ResolveUnixAddr addr else ResolveTCPAddr addr)"

end
