(* ===== verification/Conn.thy ===== *)
theory Conn
  imports Net
begin

text \<open>
  Connections (\<open>net.Conn\<close>) and the helpers of \<open>pkg/server/utils.go\<close> that use them. A connection
  is a script: \<open>rscript\<close> lists what the peer and the network deliver to successive reads, an
  exhausted script is the end of the stream; \<open>wscript\<close> lists the outcome of successive writes,
  where \<open>Some (k, e)\<close> is a write cut off after \<open>k\<close> bytes by \<open>e\<close>, and an exhausted script
  accepts everything. A deadline that fires is an error in the script; the model keeps whether
  one is armed.
\<close>

definition ReadBufferSize :: nat where
  "ReadBufferSize = 256"

datatype conn_kind = TCPConn | UnixConn | TLSConn

record conn =
  kind :: conn_kind
  localAddr :: netaddr
  remoteAddr :: netaddr
  rscript :: "(string \<times> goerr option) list"
  wscript :: "(nat \<times> goerr) option list"
  sent :: string
  rarmed :: bool
  warmed :: bool
  linger0 :: bool
  readClosed :: bool
  connClosed :: bool

definition stream :: "conn \<Rightarrow> string" where
  "stream c = concat (map fst (rscript c))"

text \<open>\<open>Read\<close> into a buffer of \<open>k\<close> bytes: what does not fit stays for the next call.\<close>

definition conn_read :: "nat \<Rightarrow> conn \<Rightarrow> (string \<times> goerr option) \<times> conn" where
  "conn_read k c =
     (case rscript c of
        [] \<Rightarrow> (([], Some EOF), c)
      | (bs, e) # rest \<Rightarrow>
          if length bs \<le> k then ((bs, e), c\<lparr>rscript := rest\<rparr>)
          else ((take k bs, None), c\<lparr>rscript := (drop k bs, e) # rest\<rparr>))"

definition conn_write :: "string \<Rightarrow> conn \<Rightarrow> goerr option \<times> conn" where
  "conn_write bs c =
     (case wscript c of
        [] \<Rightarrow> (None, c\<lparr>sent := sent c @ bs\<rparr>)
      | None # rest \<Rightarrow> (None, c\<lparr>sent := sent c @ bs, wscript := rest\<rparr>)
      | Some (k, e) # rest \<Rightarrow> (Some e, c\<lparr>sent := sent c @ take k bs, wscript := rest\<rparr>))"

text \<open>\<open>writeWithTimeout\<close>: the byte count it also returns is never used.\<close>

definition writeWithTimeout :: "conn \<Rightarrow> string \<Rightarrow> int \<Rightarrow> goerr option \<times> conn" where
  "writeWithTimeout c buf timeout = conn_write buf (if 0 < timeout then c\<lparr>warmed := True\<rparr> else c)"

text \<open>\<open>writeProxyProtocolHeader\<close>\<close>

definition writeProxyProtocolHeader :: "conn \<Rightarrow> netaddr \<Rightarrow> netaddr \<Rightarrow> int \<Rightarrow> goerr option \<times> conn" where
  "writeProxyProtocolHeader c sourceAddr destAddr writeTimeout =
     (case generateProxyProtocolHeader sourceAddr destAddr of
        Inl e \<Rightarrow> (Some e, c)
      | Inr h \<Rightarrow> writeWithTimeout c h writeTimeout)"

text \<open>
  \<open>readLine\<close>, over any reader: \<open>max\<close> is \<open>len(buf)\<close> and \<open>acc\<close> is \<open>buf[:n]\<close>. A reader that keeps
  returning nothing and no error keeps the loop going, so the result is an option; the \<open>err\<close> it
  returns goes with the bytes read so far.
\<close>

partial_function (option) readLine_loop ::
    "(nat \<Rightarrow> 'c \<Rightarrow> (string \<times> goerr option) \<times> 'c) \<Rightarrow> nat \<Rightarrow> string \<Rightarrow> 'c \<Rightarrow> ((string \<times> goerr option) \<times> 'c) option" where
  "readLine_loop rd mx acc c =
     (case rd (mx - length acc) c of ((bs, e), c1) \<Rightarrow>
        let acc1 = acc @ bs in
        if acc1 \<noteq> [] \<and> last acc1 = LF then Some ((acc1, None), c1)
        else if length acc1 = mx then Some ((acc1, None), c1)
        else case e of Some err \<Rightarrow> Some ((acc1, Some err), c1)
             | None \<Rightarrow> readLine_loop rd mx acc1 c1)"

text \<open>
  The same equation, with the choice between returning and going round again made before the
  recursive call: this one can be evaluated.
\<close>

fun readLine_next :: "(nat \<Rightarrow> 'c \<Rightarrow> (string \<times> goerr option) \<times> 'c) \<Rightarrow> nat \<Rightarrow> ((string \<times> goerr option) \<times> 'c) + (string \<times> 'c) \<Rightarrow>
    ((string \<times> goerr option) \<times> 'c) option" where
  "readLine_next rd mx (Inl x) = Some x"
| "readLine_next rd mx (Inr (acc, c)) = readLine_loop rd mx acc c"

lemma readLine_loop_code [code]:
  "readLine_loop rd mx acc c = readLine_next rd mx
     (case rd (mx - length acc) c of ((bs, e), c1) \<Rightarrow>
        let acc1 = acc @ bs in
        if acc1 \<noteq> [] \<and> last acc1 = LF then Inl ((acc1, None), c1)
        else if length acc1 = mx then Inl ((acc1, None), c1)
        else case e of Some err \<Rightarrow> Inl ((acc1, Some err), c1) | None \<Rightarrow> Inr (acc1, c1))"
  by (subst readLine_loop.simps) (simp add: Let_def split: prod.split option.split)

definition armed_read :: "int \<Rightarrow> nat \<Rightarrow> conn \<Rightarrow> (string \<times> goerr option) \<times> conn" where
  "armed_read timeout k c = conn_read k (if 0 < timeout then c\<lparr>rarmed := True\<rparr> else c)"

definition readLine :: "conn \<Rightarrow> nat \<Rightarrow> int \<Rightarrow> ((string \<times> goerr option) \<times> conn) option" where
  "readLine c mx timeout = readLine_loop (armed_read timeout) mx [] c"

text \<open>\<open>closeRead\<close>: only TCP and Unix connections have a \<open>CloseRead\<close>; its result is \<open>res\<close>.\<close>

definition closeRead :: "goerr option \<Rightarrow> conn \<Rightarrow> bool \<Rightarrow> goerr option \<times> conn" where
  "closeRead res c setLinger =
     (let c1 = (if setLinger \<and> kind c = TCPConn then c\<lparr>linger0 := True\<rparr> else c)
      in if kind c1 = TCPConn \<or> kind c1 = UnixConn then (res, c1\<lparr>readClosed := True\<rparr>) else (None, c1))"

definition conn_close :: "conn \<Rightarrow> conn" where
  "conn_close c = c\<lparr>connClosed := True\<rparr>"

text \<open>\<open>SetDeadline\<close> with the zero time.\<close>

definition clear_deadline :: "conn \<Rightarrow> conn" where
  "clear_deadline c = c\<lparr>rarmed := False, warmed := False\<rparr>"

text \<open>
  \<open>dialContextTCPOrUnix\<close>: the dialer is a parameter, a function of the network and the address.
\<close>

definition dialContextTCPOrUnix :: "(string \<Rightarrow> string \<Rightarrow> goerr + conn) \<Rightarrow> string \<Rightarrow> goerr + conn" where
  "dialContextTCPOrUnix DialContext addr =
     (if hasPrefix addr ''/'' then DialContext ''unix'' addr else DialContext ''tcp'' addr)"

section \<open>Buffered reading\<close>

text \<open>
  \<open>bufio.Reader\<close>: the bytes buffered, the error kept for when they are used up, the connection.
  \<open>ReadString(delim)\<close> hands out the bytes up to the first delimiter; with none in sight it
  reads on, and at an error returns what is left with that error. (A fill asks for at most
  \<open>ReadBufferSize\<close> bytes; how many it asks for is invisible in the bytes handed out. The
  \<open>ErrNoProgress\<close> of a hundred empty reads in a row does not occur on a \<open>net.Conn\<close>.)
\<close>

record 'c bufreader =
  buffered :: string
  readErr :: "goerr option"
  under :: 'c

partial_function (option) ReadString_loop ::
    "(nat \<Rightarrow> 'c \<Rightarrow> (string \<times> goerr option) \<times> 'c) \<Rightarrow> char \<Rightarrow> 'c bufreader \<Rightarrow> ((string \<times> goerr option) \<times> 'c bufreader) option" where
  "ReadString_loop rd delim b =
     (case indexByte delim (buffered b) of
        Some i \<Rightarrow> Some ((take (Suc i) (buffered b), None), b\<lparr>buffered := drop (Suc i) (buffered b)\<rparr>)
      | None \<Rightarrow> (case readErr b of
            Some e \<Rightarrow> Some ((buffered b, Some e), b\<lparr>buffered := [], readErr := None\<rparr>)
          | None \<Rightarrow> (case rd ReadBufferSize (under b) of ((bs, e), c1) \<Rightarrow>
                ReadString_loop rd delim \<lparr>buffered = buffered b @ bs, readErr = e, under = c1\<rparr>)))"

lemma ReadString_hit:
  assumes "indexByte d (buffered b) = Some i"
  obtains l r where "d \<notin> set l" "buffered b = l @ d # r"
    "ReadString_loop rd d b = Some ((l @ [d], None), b\<lparr>buffered := r\<rparr>)"
proof -
  from indexByte_split [OF assms] have sp: "buffered b = take i (buffered b) @ d # drop (Suc i) (buffered b)"
    "d \<notin> set (take i (buffered b))" "i < length (buffered b)" by blast+
  moreover have "take (Suc i) (buffered b) = take i (buffered b) @ [d]"
    using sp(1,3) by (metis nth_append_length take_Suc_conv_app_nth length_take min.absorb4)
  moreover have "ReadString_loop rd d b = Some ((take (Suc i) (buffered b), None), b\<lparr>buffered := drop (Suc i) (buffered b)\<rparr>)"
    using assms by (subst ReadString_loop.simps) simp
  ultimately show thesis using that by metis
qed

lemma ReadString_fill:
  assumes "indexByte d (buffered b) = None" "readErr b = None" "rd ReadBufferSize (under b) = ((bs, e), c1)"
  shows "ReadString_loop rd d b = ReadString_loop rd d \<lparr>buffered = buffered b @ bs, readErr = e, under = c1\<rparr>"
  using assms by (subst ReadString_loop.simps) simp

lemma ReadString_err:
  assumes "indexByte d (buffered b) = None" "readErr b = Some e"
  shows "ReadString_loop rd d b = Some ((buffered b, Some e), b\<lparr>buffered := [], readErr := None\<rparr>)"
  using assms by (subst ReadString_loop.simps) simp

section \<open>The interface of a reader\<close>

text \<open>
  What the loops below rely on: a read returns at most as many bytes as fit, they are the next
  ones of the stream, a state has finitely many reads left that return no error, and the rest of
  the state is not touched.
\<close>

locale byte_source =
  fixes rd :: "nat \<Rightarrow> 'c \<Rightarrow> (string \<times> goerr option) \<times> 'c"
    and rest :: "'c \<Rightarrow> string"
    and fuel :: "'c \<Rightarrow> nat"
    and frame :: "'c \<Rightarrow> 'f"
  assumes rd_length: "rd k c = ((bs, e), c') \<Longrightarrow> length bs \<le> k"
    and rd_stream: "rd k c = ((bs, e), c') \<Longrightarrow> rest c = bs @ rest c'"
    and rd_fuel: "rd k c = ((bs, None), c') \<Longrightarrow> 0 < k \<Longrightarrow> fuel c' < fuel c"
    and rd_frame: "rd k c = ((bs, e), c') \<Longrightarrow> frame c' = frame c"
begin

text \<open>The reading loop returns, and what it returned is the next part of the stream.\<close>

lemma readLine_loop_returns:
  assumes "length acc \<le> mx" "acc = [] \<or> last acc \<noteq> LF" "length acc < mx \<or> mx = 0"
  shows "\<exists>out e c'. readLine_loop rd mx acc c = Some ((out, e), c') \<and> acc @ rest c = out @ rest c' \<and>
    length out \<le> mx \<and> frame c' = frame c \<and> (\<exists>more. out = acc @ more) \<and>
    (e = None \<longrightarrow> length out = mx \<or> out \<noteq> [] \<and> last out = LF) \<and>
    (e \<noteq> None \<longrightarrow> length out < mx \<and> (out = [] \<or> last out \<noteq> LF))"
  using assms
proof (induction "fuel c" arbitrary: acc c rule: less_induct)
  case less
  obtain bs e c1 where r: "rd (mx - length acc) c = ((bs, e), c1)" by (metis surj_pair)
  note L = rd_length [OF r] rd_stream [OF r] rd_frame [OF r]
  show ?case
  proof (cases "(acc @ bs \<noteq> [] \<and> last (acc @ bs) = LF) \<or> length (acc @ bs) = mx \<or> e \<noteq> None")
    case True
    with r L less.prems show ?thesis
      by (subst readLine_loop.simps) (auto simp: Let_def split: option.splits)
  next
    case False
    then have e: "e = None" by simp
    have pos: "0 < mx - length acc" using less.prems False L(1) by auto
    have "\<exists>out e c'. readLine_loop rd mx (acc @ bs) c1 = Some ((out, e), c') \<and> (acc @ bs) @ rest c1 = out @ rest c' \<and>
      length out \<le> mx \<and> frame c' = frame c1 \<and> (\<exists>more. out = (acc @ bs) @ more) \<and>
      (e = None \<longrightarrow> length out = mx \<or> out \<noteq> [] \<and> last out = LF) \<and>
      (e \<noteq> None \<longrightarrow> length out < mx \<and> (out = [] \<or> last out \<noteq> LF))"
      by (rule less.hyps) (use rd_fuel [OF r [unfolded e] pos] False L(1) less.prems in auto)
    with False r e L show ?thesis
      by (subst readLine_loop.simps) (auto simp: Let_def)
  qed
qed

text \<open>
  So does \<open>ReadString\<close>; without an error it returned the bytes up to the first delimiter.
\<close>

definition read_ok :: "char \<Rightarrow> 'c bufreader \<Rightarrow> (string \<times> goerr option) \<times> 'c bufreader \<Rightarrow> bool" where
  "read_ok d b = (\<lambda>((line, e), b').
     buffered b @ rest (under b) = line @ buffered b' @ rest (under b') \<and> frame (under b') = frame (under b) \<and>
     (case e of None \<Rightarrow> \<exists>l. line = l @ [d] \<and> d \<notin> set l | Some _ \<Rightarrow> d \<notin> set line))"

lemma ReadString_buffered:
  assumes "indexByte d (buffered b) \<noteq> None \<or> readErr b \<noteq> None"
  shows "\<exists>x. ReadString_loop rd d b = Some x \<and> read_ok d b x"
proof (cases "indexByte d (buffered b)")
  case (Some i)
  then obtain l r where "d \<notin> set l" "buffered b = l @ d # r"
    "ReadString_loop rd d b = Some ((l @ [d], None), b\<lparr>buffered := r\<rparr>)" by (rule ReadString_hit)
  then show ?thesis by (auto simp: read_ok_def)
next
  case None
  with assms obtain e where "readErr b = Some e" by blast
  with ReadString_err [OF None this] None show ?thesis by (simp add: read_ok_def)
qed

lemma ReadString_returns: "\<exists>x. ReadString_loop rd d b = Some x \<and> read_ok d b x"
proof (induction "fuel (under b)" arbitrary: b rule: less_induct)
  case less
  show ?case
  proof (cases "indexByte d (buffered b) \<noteq> None \<or> readErr b \<noteq> None")
    case True
    then show ?thesis by (rule ReadString_buffered)
  next
    case False
    obtain bs e c1 where r: "rd ReadBufferSize (under b) = ((bs, e), c1)" by (metis surj_pair)
    let ?b = "\<lparr>buffered = buffered b @ bs, readErr = e, under = c1\<rparr>"
    have step: "ReadString_loop rd d b = ReadString_loop rd d ?b"
      using False r ReadString_fill [of d b rd bs e c1] by auto
    have ok: "read_ok d ?b x \<Longrightarrow> read_ok d b x" for x
      using rd_stream [OF r] rd_frame [OF r] by (auto simp: read_ok_def)
    have "\<exists>x. ReadString_loop rd d ?b = Some x \<and> read_ok d ?b x"
    proof (cases e)
      case None
      then have "fuel (under ?b) < fuel (under b)" using rd_fuel r by (auto simp: ReadBufferSize_def)
      then show ?thesis by (rule less.hyps)
    next
      case (Some err)
      then show ?thesis by (intro ReadString_buffered) simp
    qed
    with step ok show ?thesis by metis
  qed
qed

end

text \<open>
  A reader whose only error is the end of the stream: then \<open>ReadString\<close> cuts the text at its
  delimiters, wherever the network cut it.
\<close>

locale clean_byte_source = byte_source +
  fixes clean :: "'a \<Rightarrow> bool"
  assumes rd_clean: "clean c \<Longrightarrow> rd k c = ((bs, e), c') \<Longrightarrow> clean c' \<and> (e \<noteq> None \<longrightarrow> e = Some EOF \<and> rest c' = [])"
begin

definition buffer_ok :: "'a bufreader \<Rightarrow> bool" where
  "buffer_ok b \<longleftrightarrow> clean (under b) \<and> (readErr b \<noteq> None \<longrightarrow> readErr b = Some EOF \<and> rest (under b) = [])"

lemma cuts_line:
  assumes "buffer_ok b" "buffered b @ rest (under b) = l @ d # r" "d \<notin> set l"
  shows "\<exists>b'. ReadString_loop rd d b = Some ((l @ [d], None), b') \<and> buffer_ok b' \<and>
    buffered b' @ rest (under b') = r \<and> frame (under b') = frame (under b)"
  using assms
proof (induction "fuel (under b)" arbitrary: b rule: less_induct)
  case less
  show ?case
  proof (cases "indexByte d (buffered b)")
    case (Some i)
    then obtain l' r' where h: "d \<notin> set l'" "buffered b = l' @ d # r'"
      "ReadString_loop rd d b = Some ((l' @ [d], None), b\<lparr>buffered := r'\<rparr>)" by (rule ReadString_hit)
    have "l' @ d # (r' @ rest (under b)) = l @ d # r" using less.prems(2) h(2) by simp
    from split_first [OF this h(1) less.prems(3)] h(3) less.prems(1) show ?thesis
      by (simp add: buffer_ok_def)
  next
    case None
    have err: "readErr b = None"
    proof (rule ccontr)
      assume "readErr b \<noteq> None"
      with less.prems(1,2) have "buffered b = l @ d # r" by (simp add: buffer_ok_def)
      with None show False by simp
    qed
    obtain bs e c1 where rd: "rd ReadBufferSize (under b) = ((bs, e), c1)" by (metis surj_pair)
    let ?b = "\<lparr>buffered = buffered b @ bs, readErr = e, under = c1\<rparr>"
    note step = ReadString_fill [of d b rd, OF None err rd]
    have ok: "buffer_ok ?b" using rd_clean [OF _ rd] less.prems(1) by (simp add: buffer_ok_def)
    have tx: "buffered ?b @ rest (under ?b) = l @ d # r" using rd_stream [OF rd] less.prems(2) by simp
    show ?thesis
    proof (cases "e = None")
      case True
      then have "fuel (under ?b) < fuel (under b)" using rd_fuel rd by (auto simp: ReadBufferSize_def)
      from less.hyps [OF this ok tx less.prems(3)] step rd_frame [OF rd] show ?thesis by simp
    next
      case False
      then have all: "buffered b @ bs = l @ d # r" using ok tx by (simp add: buffer_ok_def)
      then have "indexByte d (buffered ?b) = Some (length l)" using indexByte_append [OF less.prems(3)] by simp
      then have "ReadString_loop rd d ?b = Some ((l @ [d], None), ?b\<lparr>buffered := r\<rparr>)"
        by (subst ReadString_loop.simps) (simp add: all)
      with step ok False rd_frame [OF rd] show ?thesis by (simp add: buffer_ok_def)
    qed
  qed
qed

lemma cuts_end:
  assumes "buffer_ok b" "buffered b @ rest (under b) = l" "d \<notin> set l"
  shows "\<exists>b'. ReadString_loop rd d b = Some ((l, Some EOF), b')"
  using assms
proof (induction "fuel (under b)" arbitrary: b rule: less_induct)
  case less
  have "d \<notin> set (buffered b)" using less.prems(2,3) by auto
  then have nd: "indexByte d (buffered b) = None" by (rule indexByte_absent)
  show ?case
  proof (cases "readErr b")
    case (Some e)
    with less.prems nd show ?thesis by (subst ReadString_loop.simps) (simp add: buffer_ok_def)
  next
    case None
    obtain bs e c1 where rd: "rd ReadBufferSize (under b) = ((bs, e), c1)" by (metis surj_pair)
    let ?b = "\<lparr>buffered = buffered b @ bs, readErr = e, under = c1\<rparr>"
    have step: "ReadString_loop rd d b = ReadString_loop rd d ?b"
      using None nd rd by (subst ReadString_loop.simps) simp
    have ok: "buffer_ok ?b" using rd_clean [OF _ rd] less.prems(1) by (simp add: buffer_ok_def)
    have tx: "buffered ?b @ rest (under ?b) = l" using rd_stream [OF rd] less.prems(2) by simp
    show ?thesis
    proof (cases "e = None")
      case True
      then have "fuel (under ?b) < fuel (under b)" using rd_fuel rd by (auto simp: ReadBufferSize_def)
      from less.hyps [OF this ok tx less.prems(3)] step show ?thesis by simp
    next
      case False
      then have "buffered b @ bs = l" "e = Some EOF" using ok tx by (simp_all add: buffer_ok_def)
      moreover have "indexByte d (buffered b @ bs) = None" using calculation less.prems(3) by simp
      ultimately have "ReadString_loop rd d ?b = Some ((l, Some EOF), ?b\<lparr>buffered := [], readErr := None\<rparr>)"
        by (subst ReadString_loop.simps) simp
      with step show ?thesis by simp
    qed
  qed
qed

end

text \<open>The script of a connection is such a reader; without errors in it, a clean one.\<close>

definition script_fuel :: "conn \<Rightarrow> nat" where
  "script_fuel c = sum_list (map (\<lambda>(bs, e). Suc (length bs)) (rscript c))"

definition read_frame :: "conn \<Rightarrow> conn_kind \<times> netaddr \<times> netaddr \<times> (nat \<times> goerr) option list \<times> string \<times> bool" where
  "read_frame c = (kind c, localAddr c, remoteAddr c, wscript c, sent c, connClosed c)"

lemma armed_read_laws:
  assumes "armed_read t k c = ((bs, e), c')"
  shows "length bs \<le> k" "stream c = bs @ stream c'" "e = None \<Longrightarrow> 0 < k \<Longrightarrow> script_fuel c' < script_fuel c"
    "read_frame c' = read_frame c"
  using assms
  by (auto simp: armed_read_def conn_read_def stream_def script_fuel_def read_frame_def split: list.splits if_splits)

interpretation conn_source: byte_source "armed_read t" stream script_fuel read_frame
  by unfold_locales (auto dest: armed_read_laws)

definition clean_conn :: "conn \<Rightarrow> bool" where
  "clean_conn c \<longleftrightarrow> (\<forall>(bs, e) \<in> set (rscript c). e = None)"

interpretation clean_source: clean_byte_source "armed_read t" stream script_fuel read_frame clean_conn
  by unfold_locales
    (auto simp: armed_read_def conn_read_def clean_conn_def stream_def split: list.splits if_splits)


section \<open>Writes that succeed\<close>

definition writes_ok :: "conn \<Rightarrow> bool" where
  "writes_ok c \<longleftrightarrow> (\<forall>w \<in> set (wscript c). w = None)"

definition write_frame :: "conn \<Rightarrow> conn_kind \<times> netaddr \<times> netaddr \<times> (string \<times> goerr option) list \<times> bool \<times> bool" where
  "write_frame c = (kind c, localAddr c, remoteAddr c, rscript c, readClosed c, connClosed c)"

lemma writeWithTimeout_ok:
  assumes "writes_ok c"
  shows "\<exists>c'. writeWithTimeout c bs t = (None, c') \<and> sent c' = sent c @ bs \<and> rscript c' = rscript c \<and>
    writes_ok c' \<and> write_frame c' = write_frame c"
  using assms
  by (auto simp: writes_ok_def writeWithTimeout_def conn_write_def write_frame_def split: list.splits)

lemma writeWithTimeout_sent: "writeWithTimeout c bs t = (None, c') \<Longrightarrow> sent c' = sent c @ bs"
  by (auto simp: writeWithTimeout_def conn_write_def split: list.splits option.splits if_splits)

lemma writeWithTimeout_frame: "writeWithTimeout c bs t = (e, c') \<Longrightarrow> write_frame c' = write_frame c"
  by (auto simp: writeWithTimeout_def conn_write_def write_frame_def split: list.splits option.splits if_splits)

section \<open>Messages\<close>

text \<open>
  A peer that sends one line and waits: however the network cuts the line up, \<open>readLine\<close>
  returns the whole line and leaves what comes later.
\<close>

lemma readLine_loop_message:
  assumes "rscript c = map (\<lambda>b. (b, None)) bss @ later" "acc @ concat bss = l @ [LF]" "LF \<notin> set l" "length l < mx"
    "bss \<noteq> []" "last bss \<noteq> []"
  shows "\<exists>c'. readLine_loop (armed_read t) mx acc c = Some ((l @ [LF], None), c') \<and> rscript c' = later \<and>
    read_frame c' = read_frame c"
  using assms
proof (induction bss arbitrary: acc c)
  case Nil
  then show ?case by simp
next
  case (Cons b bss)
  have len: "length acc + length b \<le> Suc (length l)"
    using arg_cong [OF Cons.prems(2), of length] by simp
  then have fits: "length b \<le> mx - length acc" using Cons.prems(4) by simp
  define c1 where "c1 = (if 0 < t then c\<lparr>rarmed := True\<rparr> else c)\<lparr>rscript := map (\<lambda>b. (b, None)) bss @ later\<rparr>"
  have r: "armed_read t (mx - length acc) c = ((b, None), c1)"
    using Cons.prems(1) fits by (auto simp: armed_read_def conn_read_def c1_def)
  have f: "read_frame c1 = read_frame c" by (simp add: c1_def read_frame_def)
  have rs: "rscript c1 = map (\<lambda>b. (b, None)) bss @ later" by (simp add: c1_def)
  show ?case
  proof (cases bss)
    case Nil
    with Cons.prems(2) have "acc @ b = l @ [LF]" by simp
    with Nil r f rs show ?thesis
      by (subst readLine_loop.simps) (auto simp: Let_def)
  next
    case (Cons b' bss')
    have "last bss \<in> set bss" "last bss \<noteq> []"
      using Cons Cons.prems(6) last_in_set [of bss] by auto
    then have ne: "concat bss \<noteq> []" by (metis concat_eq_Nil_conv)
    have cat: "(acc @ b) @ concat bss = l @ [LF]" using Cons.prems(2) by simp
    have "length (acc @ b) + length (concat bss) = Suc (length l)" using arg_cong [OF cat, of length] by simp
    moreover have "0 < length (concat bss)" using ne by blast
    ultimately have le: "length (acc @ b) \<le> length l" by linarith
    have "acc @ b = take (length (acc @ b)) ((acc @ b) @ concat bss)" by simp
    also have "\<dots> = take (length (acc @ b)) l" using le by (simp only: cat) simp
    finally have pre: "acc @ b = take (length (acc @ b)) l" .
    then have "LF \<notin> set (acc @ b)" using Cons.prems(3) by (metis in_set_takeD)
    then have noLF: "\<not> (acc @ b \<noteq> [] \<and> last (acc @ b) = LF)" by (metis last_in_set)
    have short: "length (acc @ b) < mx" using pre Cons.prems(4) by (metis length_take min.cobounded1 le_less_trans)
    from Cons.IH [OF rs cat Cons.prems(3,4)] Cons Cons.prems(6) obtain c' where
      "readLine_loop (armed_read t) mx (acc @ b) c1 = Some ((l @ [LF], None), c')" "rscript c' = later"
      "read_frame c' = read_frame c1" by auto
    with r noLF short f show ?thesis by (subst readLine_loop.simps) (auto simp: Let_def)
  qed
qed

end
