(* ===== verification/UtilProps.thy ===== *)
theory UtilProps
  imports Conn
begin

text \<open>Properties of the helpers in \<open>pkg/server/utils.go\<close>.\<close>

section \<open>Reading a line\<close>

definition no_script :: conn where
  "no_script = \<lparr>kind = TCPConn, localAddr = TCPAddr [10, 0, 0, 1] 873 [], remoteAddr = TCPAddr [192, 0, 2, 1] 40000 [],
     rscript = [], wscript = [], sent = [], rarmed = False, warmed = False, linger0 = False, readClosed = False,
     connClosed = False\<rparr>"

text \<open>
  \<open>readLine\<close> always returns on a connection. What it returns is the next part of the stream
  and fits the buffer, nothing is written, and without an error the buffer is full or the last
  byte is a newline (so a result without error is never empty for a non-empty buffer).
\<close>

theorem readLine_returns:
  assumes "0 < mx"
  shows "\<exists>out e c'. readLine c mx timeout = Some ((out, e), c') \<and> stream c = out @ stream c' \<and> length out \<le> mx \<and>
    sent c' = sent c \<and> (if e = None then out \<noteq> [] \<and> (length out = mx \<or> last out = LF)
                        else length out < mx \<and> (out = [] \<or> last out \<noteq> LF))"
proof -
  from conn_source.readLine_loop_returns [of "[]" mx timeout c] assms
  obtain out e c' where "readLine c mx timeout = Some ((out, e), c')" "stream c = out @ stream c'" "length out \<le> mx"
    "read_frame c' = read_frame c" "e = None \<longrightarrow> length out = mx \<or> out \<noteq> [] \<and> last out = LF"
    "e \<noteq> None \<longrightarrow> length out < mx \<and> (out = [] \<or> last out \<noteq> LF)"
    by (auto simp: readLine_def)
  with assms show ?thesis by (auto simp: read_frame_def)
qed

theorem readLine_returns_witness:
  "(0::nat) < 256 \<and> (\<exists>out e c'. readLine (no_script\<lparr>rscript := [(''@RSYNCD:'', None), ('' 31.0'', Some EOF)]\<rparr>) 256 0 = Some ((out, e), c') \<and>
     e \<noteq> None \<and> length out = 13)"
proof -
  let ?c = "no_script\<lparr>rscript := [(''@RSYNCD:'', None), ('' 31.0'', Some EOF)]\<rparr>"
  obtain out e c' where r: "readLine ?c 256 0 = Some ((out, e), c')"
    using readLine_returns [of 256 ?c 0] by auto
  have "readLine ?c 256 0 = Some ((''@RSYNCD: 31.0'', Some EOF), no_script\<lparr>rscript := []\<rparr>)"
    by (simp add: readLine_def readLine_loop.simps armed_read_def conn_read_def no_script_def)
  with r show ?thesis by auto
qed

text \<open>
  However the network cuts up a line of a peer that then waits, \<open>readLine\<close> returns exactly the
  line, and whatever the peer sends later is still to be read.
\<close>

theorem readLine_any_fragmentation:
  assumes "rscript c = map (\<lambda>b. (b, None)) bss @ later" and "concat bss = l @ [LF]" and "LF \<notin> set l"
    and "length l < mx" and "last bss \<noteq> []"
  shows "\<exists>c'. readLine c mx timeout = Some ((l @ [LF], None), c') \<and> rscript c' = later \<and> sent c' = sent c"
proof -
  have "bss \<noteq> []" using assms(2) by auto
  with readLine_loop_message [of c bss later "[]" l mx timeout] assms show ?thesis
    by (auto simp: readLine_def read_frame_def)
qed

theorem readLine_any_fragmentation_witness:
  "\<exists>c'. readLine (no_script\<lparr>rscript := [(''@RSYNCD:'', None), ('' 31.0'', None), ([LF], None), (''foo'' @ [LF], None)]\<rparr>)
     256 60 = Some ((''@RSYNCD: 31.0'' @ [LF], None), c') \<and> rscript c' = [(''foo'' @ [LF], None)] \<and> sent c' = []"
  using readLine_any_fragmentation
    [of "no_script\<lparr>rscript := [(''@RSYNCD:'', None), ('' 31.0'', None), ([LF], None), (''foo'' @ [LF], None)]\<rparr>"
      "[''@RSYNCD:'', '' 31.0'', [LF]]" "[(''foo'' @ [LF], None)]" "''@RSYNCD: 31.0''" 256 60]
  by (simp add: no_script_def)

section \<open>The PROXY protocol header\<close>

lemma show_byte_chars: "c \<in> set (show_byte b) \<Longrightarrow> is_digit c"
  by (auto simp: show_byte_def dest: show_nat_digits)

lemma show_byte_no [simp]: "\<not> is_digit c \<Longrightarrow> c \<notin> set (show_byte b)"
  using show_byte_chars by blast

lemma show_byte_inject [simp]: "show_byte a = show_byte b \<longleftrightarrow> a = b"
  by (simp add: show_byte_def word_unat_eq_iff)

lemma not_digits [simp]: "\<not> is_digit (CHR ''.'')" "\<not> is_digit (CHR '' '')" "\<not> is_digit (CHR '':'')" "\<not> is_digit CR" "\<not> is_digit LF"
  by (simp_all add: is_digit_def)

lemma four_bytes: "length p = 4 \<Longrightarrow> \<exists>a b c d. p = [a, b, c, d]"
  by (auto simp: length_Suc_conv numeral_eq_Suc)

lemma dotted_inject:
  assumes "length p = 4" "length q = 4"
  shows "dotted p = dotted q \<longleftrightarrow> p = q"
proof
  assume e: "dotted p = dotted q"
  obtain a b c d a' b' c' d' where p: "p = [a, b, c, d]" and q: "q = [a', b', c', d']"
    using four_bytes assms by metis
  from e have e1: "show_byte a @ CHR ''.'' # (show_byte b @ CHR ''.'' # (show_byte c @ CHR ''.'' # show_byte d)) =
      show_byte a' @ CHR ''.'' # (show_byte b' @ CHR ''.'' # (show_byte c' @ CHR ''.'' # show_byte d'))"
    by (simp add: dotted_def p q)
  note s1 = split_first [OF e1]
  then have e2: "show_byte b @ CHR ''.'' # (show_byte c @ CHR ''.'' # show_byte d) =
      show_byte b' @ CHR ''.'' # (show_byte c' @ CHR ''.'' # show_byte d')" by simp
  note s2 = split_first [OF e2]
  then have e3: "show_byte c @ CHR ''.'' # show_byte d = show_byte c' @ CHR ''.'' # show_byte d'" by simp
  from s1 s2 split_first [OF e3] show "p = q" by (simp add: p q)
qed simp

lemma dotted_no [simp]: "length p = 4 \<Longrightarrow> c \<noteq> CHR ''.'' \<Longrightarrow> \<not> is_digit c \<Longrightarrow> c \<notin> set (dotted p)"
  using four_bytes [of p] by (auto simp: dotted_def)

lemma IP_String_four: "length p = 4 \<Longrightarrow> IP_String p = dotted p"
  by (auto simp: IP_String_def)

text \<open>
  C31. Between two IPv4 endpoints the header is one line with exactly the fields of the protocol,
  and it determines both addresses and both ports.
\<close>

theorem proxy_header_ipv4:
  assumes "length s = 4" "length d = 4" "length s' = 4" "length d' = 4"
  shows "generateProxyProtocolHeader (TCPAddr s sp z) (TCPAddr d dp y) =
      Inr (''PROXY TCP4 '' @ dotted s @ '' '' @ dotted d @ '' '' @ show_nat sp @ '' '' @ show_nat dp @ [CR, LF]) \<and>
    (generateProxyProtocolHeader (TCPAddr s sp z) (TCPAddr d dp y) =
     generateProxyProtocolHeader (TCPAddr s' sp' z') (TCPAddr d' dp' y') \<longleftrightarrow> s = s' \<and> d = d' \<and> sp = sp' \<and> dp = dp')"
proof -
  have h: "generateProxyProtocolHeader (TCPAddr s sp z) (TCPAddr d dp y) =
      Inr (''PROXY TCP4 '' @ dotted s @ '' '' @ dotted d @ '' '' @ show_nat sp @ '' '' @ show_nat dp @ [CR, LF])"
    if "length s = 4" "length d = 4" for s d sp dp z y
    using that by (simp add: generateProxyProtocolHeader_def IP_String_four)
  have "s = s' \<and> d = d' \<and> sp = sp' \<and> dp = dp'"
    if eq: "dotted s @ '' '' @ dotted d @ '' '' @ show_nat sp @ '' '' @ show_nat dp @ [CR, LF] =
        dotted s' @ '' '' @ dotted d' @ '' '' @ show_nat sp' @ '' '' @ show_nat dp' @ [CR, LF]"
  proof -
    have e1: "dotted s @ CHR '' '' # (dotted d @ CHR '' '' # (show_nat sp @ CHR '' '' # (show_nat dp @ [CR, LF]))) =
      dotted s' @ CHR '' '' # (dotted d' @ CHR '' '' # (show_nat sp' @ CHR '' '' # (show_nat dp' @ [CR, LF])))"
      using eq by simp
    note s1 = split_first [OF e1]
    then have e2: "dotted d @ CHR '' '' # (show_nat sp @ CHR '' '' # (show_nat dp @ [CR, LF])) =
      dotted d' @ CHR '' '' # (show_nat sp' @ CHR '' '' # (show_nat dp' @ [CR, LF]))" using assms by simp
    note s2 = split_first [OF e2]
    then have e3: "show_nat sp @ CHR '' '' # (show_nat dp @ [CR, LF]) = show_nat sp' @ CHR '' '' # (show_nat dp' @ [CR, LF])"
      using assms by simp
    note s3 = split_first [OF e3]
    show ?thesis using s1 s2 s3 assms by (simp add: dotted_inject)
  qed
  then show ?thesis using h assms by auto
qed

theorem proxy_header_ipv4_witness:
  "generateProxyProtocolHeader (TCPAddr [192, 0, 2, 1] 40000 []) (TCPAddr [10, 0, 0, 2] 873 []) =
     Inr (''PROXY TCP4 '' @ dotted [192, 0, 2, 1] @ '' '' @ dotted [10, 0, 0, 2] @ '' '' @ show_nat 40000 @ '' '' @
          show_nat 873 @ [CR, LF])"
  using proxy_header_ipv4 [of "[192, 0, 2, 1]" "[10, 0, 0, 2]" "[192, 0, 2, 1]" "[10, 0, 0, 2]" 40000 "[]" 873 "[]"] by simp

text \<open>
  The family named in the header is that of the source alone: an IPv4 client of an IPv6
  upstream gets a header that announces \<open>TCP4\<close> and then gives a destination with colons, which no
  IPv4 address has.
\<close>

theorem proxy_header_mixed_family:
  assumes "length s = 4" "length d = 16" "To4 d = None"
  shows "\<exists>dest. generateProxyProtocolHeader (TCPAddr s sp z) (TCPAddr d dp y) =
      Inr (''PROXY TCP4 '' @ dotted s @ '' '' @ dest @ '' '' @ show_nat sp @ '' '' @ show_nat dp @ [CR, LF]) \<and>
    CHR '':'' \<in> set dest \<and> (\<forall>p. length p = 4 \<longrightarrow> dest \<noteq> dotted p)"
proof -
  have d: "IP_String d = colon_text d" using assms by (auto simp: IP_String_def)
  have len: "length (groups d) = 8"
  proof -
    have "length (groups p) = length p div 2" for p by (induction p rule: groups.induct) auto
    then show ?thesis using assms(2) by simp
  qed
  have c: "CHR '':'' \<in> set (colon_text d)"
    using len colon_join_colon [of "map show_hex (groups d)"]
    by (cases "longest_zeros 0 (groups d) (0, 0)") (simp add: colon_text_def Let_def)
  have "generateProxyProtocolHeader (TCPAddr s sp z) (TCPAddr d dp y) =
      Inr (''PROXY TCP4 '' @ dotted s @ '' '' @ colon_text d @ '' '' @ show_nat sp @ '' '' @ show_nat dp @ [CR, LF])"
    using assms by (simp add: generateProxyProtocolHeader_def IP_String_four d)
  moreover have "colon_text d \<noteq> dotted p" if "length p = 4" for p
    using c dotted_no [OF that, of "CHR '':''"] by auto
  ultimately show ?thesis using c by blast
qed

theorem proxy_header_mixed_family_witness:
  "\<exists>dest. generateProxyProtocolHeader (TCPAddr [192, 0, 2, 1] 40000 [])
      (TCPAddr [32, 1, 13, 184, 0, 0, 0, 0, 0, 0, 0, 0, 0, 0, 0, 1] 873 []) =
      Inr (''PROXY TCP4 '' @ dotted [192, 0, 2, 1] @ '' '' @ dest @ '' '' @ show_nat 40000 @ '' '' @ show_nat 873 @ [CR, LF]) \<and>
    CHR '':'' \<in> set dest"
  using proxy_header_mixed_family [of "[192, 0, 2, 1]" "[32, 1, 13, 184, 0, 0, 0, 0, 0, 0, 0, 0, 0, 0, 0, 1]" 40000 "[]" 873 "[]"]
  by (auto simp: To4_def v4InV6Prefix_def)

section \<open>The default port\<close>

lemma lastIndexByte_None [simp]: "c \<notin> set s \<Longrightarrow> lastIndexByte c s = None"
  by (simp add: lastIndexByte_def)

lemma lastIndexByte_append: "c \<notin> set t \<Longrightarrow> lastIndexByte c (s @ c # t) = Some (length s)"
  by (simp add: lastIndexByte_def indexByte_append)

text \<open>
  \<open>addDefaultTCPPort\<close>: a host name or IPv4 address without port gets the default, one with a
  port is left as it is, and so is the path of a Unix socket.
\<close>

theorem default_port_added:
  assumes "CHR '':'' \<notin> set host" "CHR ''['' \<notin> set host" "CHR '']'' \<notin> set host" "\<not> hasPrefix host ''/''"
    and "CHR '':'' \<notin> set port" "CHR ''['' \<notin> set port" "CHR '']'' \<notin> set port"
  shows "addDefaultTCPPort host dflt = host @ '':'' @ dflt \<and>
    (host \<noteq> [] \<longrightarrow> addDefaultTCPPort (host @ '':'' @ port) dflt = host @ '':'' @ port) \<and>
    addDefaultTCPPort (''/'' @ path) dflt = ''/'' @ path"
proof -
  have "SplitHostPort host = Inl missingPort" using assms by (simp add: SplitHostPort_def)
  then have "addDefaultTCPPort host dflt = host @ '':'' @ dflt"
    using assms by (simp add: addDefaultTCPPort_def JoinHostPort_def)
  moreover have "addDefaultTCPPort (host @ '':'' @ port) dflt = host @ '':'' @ port" if ne: "host \<noteq> []"
  proof -
    have "hd host \<noteq> CHR ''[''" using assms(2) ne by (metis hd_in_set)
    then have "SplitHostPort (host @ CHR '':'' # port) = Inr (host, port)"
      using assms ne lastIndexByte_append [OF assms(5), of host] by (simp add: SplitHostPort_def Let_def)
    with assms ne show ?thesis by (simp add: addDefaultTCPPort_def)
  qed
  ultimately show ?thesis by (simp add: addDefaultTCPPort_def)
qed

theorem default_port_added_witness:
  "addDefaultTCPPort ''mirror.example'' ''873'' = ''mirror.example:873'' \<and>
   addDefaultTCPPort ''mirror.example:8730'' ''873'' = ''mirror.example:8730''"
  using default_port_added [of "''mirror.example''" "''8730''" "''873''"] by (simp add: hasPrefix_def)

text \<open>
  A bracketed IPv6 address without port gets a second pair of brackets, and the result has no
  host and port that Go's dialer could find.
\<close>

theorem default_port_bracketed:
  assumes "CHR '':'' \<in> set v6" "CHR ''['' \<notin> set v6" "CHR '']'' \<notin> set v6" "CHR '':'' \<notin> set dflt"
  shows "addDefaultTCPPort (''['' @ v6 @ '']'') dflt = ''[['' @ v6 @ '']]:'' @ dflt \<and>
    SplitHostPort (''[['' @ v6 @ '']]:'' @ dflt) = Inl missingPort"
proof -
  obtain i where i: "lastIndexByte (CHR '':'') (''['' @ v6 @ '']'') = Some i"
    using assms(1) by (auto simp: lastIndexByte_def) (metis indexByte_None not_None_eq set_rev UnCI set_append append_Cons append_Nil in_set_conv_decomp)
  have cl: "indexByte (CHR '']'') (CHR ''['' # v6 @ [CHR '']'']) = Some (Suc (length v6))"
    using indexByte_append [of "CHR '']''" "CHR ''['' # v6" "[]"] assms(3) by simp
  have "SplitHostPort (''['' @ v6 @ '']'') = Inl missingPort"
    using i cl by (simp add: SplitHostPort_def Let_def)
  then have 1: "addDefaultTCPPort (''['' @ v6 @ '']'') dflt = ''[['' @ v6 @ '']]:'' @ dflt"
    using assms(1) by (simp add: addDefaultTCPPort_def JoinHostPort_def hasPrefix_def)
  have j: "lastIndexByte (CHR '':'') (''[['' @ v6 @ '']]:'' @ dflt) = Some (length v6 + 4)"
    using lastIndexByte_append [OF assms(4), of "''[['' @ v6 @ '']]''"] by simp
  have cl2: "indexByte (CHR '']'') (CHR ''['' # CHR ''['' # v6 @ CHR '']'' # CHR '']'' # CHR '':'' # dflt) = Some (Suc (Suc (length v6)))"
    using indexByte_append [of "CHR '']''" "CHR ''['' # CHR ''['' # v6" "CHR '']'' # CHR '':'' # dflt"] assms(3) by simp
  have "SplitHostPort (''[['' @ v6 @ '']]:'' @ dflt) = Inl missingPort"
    using j cl2 by (simp add: SplitHostPort_def Let_def nth_append)
  with 1 show ?thesis by blast
qed

theorem default_port_bracketed_witness:
  "addDefaultTCPPort ''[2001:db8::1]'' ''873'' = ''[[2001:db8::1]]:873'' \<and> SplitHostPort ''[[2001:db8::1]]:873'' = Inl missingPort"
  using default_port_bracketed [of "''2001:db8::1''" "''873''"] by simp

end
