(* ===== verification/Routing.thy ===== *)
theory Routing
  imports Conn
begin

text \<open>
  Which upstream serves a client, from \<open>pkg/server/server.go\<close>: the targets of each module
  (\<open>resolveUpstreams\<close>, \<open>buildModuleTargets\<close>) and the choice among them by the client's address
  (\<open>chooseTargetByClientIP\<close>, an FNV-1a hash on 32-bit words).
\<close>

section \<open>Data\<close>

record Target =
  Upstream :: string
  Addr :: string
  UseProxyProtocol :: bool

record upstreamConfig =
  Name :: string
  target :: Target
  Modules :: "string list"
  DiscoverModules :: bool
  MaxActiveConns :: int
  MaxQueuedConns :: int

section \<open>From upstreams to targets\<close>

text \<open>
  \<open>resolveUpstreams\<close>: the modules of an upstream that is to be discovered are those discovered
  (none when the map has no entry), whatever the configuration lists.
\<close>

definition resolveUpstreams :: "upstreamConfig list \<Rightarrow> (string \<rightharpoonup> string list) \<Rightarrow> upstreamConfig list" where
  "resolveUpstreams us discovered =
     map (\<lambda>u. \<lparr>Name = Name u, target = target u,
                Modules = (if DiscoverModules u then (case discovered (Name u) of Some ms \<Rightarrow> ms | None \<Rightarrow> []) else Modules u),
                DiscoverModules = DiscoverModules u, MaxActiveConns = MaxActiveConns u,
                MaxQueuedConns = MaxQueuedConns u\<rparr>) us"

text \<open>\<open>buildModuleTargets\<close>: \<open>modules[m] = append(modules[m], target)\<close> in two nested loops.\<close>

definition append_target :: "Target \<Rightarrow> string \<Rightarrow> (string \<times> Target list) list \<Rightarrow> (string \<times> Target list) list" where
  "append_target t m ms = AList.update m ((case map_of ms m of Some ts \<Rightarrow> ts | None \<Rightarrow> []) @ [t]) ms"

definition buildModuleTargets :: "upstreamConfig list \<Rightarrow> (string \<times> Target list) list" where
  "buildModuleTargets us = fold (\<lambda>u. fold (append_target (target u)) (Modules u)) us []"

text \<open>What a module's targets are: each upstream's target as often as it lists the module, in order.\<close>

definition targets_of :: "upstreamConfig list \<Rightarrow> string \<Rightarrow> Target list" where
  "targets_of us m = concat (map (\<lambda>u. replicate (count_list (Modules u) m) (target u)) us)"

definition tlist :: "(string \<times> Target list) list \<Rightarrow> string \<Rightarrow> Target list" where
  "tlist ms m = (case map_of ms m of Some ts \<Rightarrow> ts | None \<Rightarrow> [])"

lemma append_target_laws:
  "tlist (append_target t m ms) m' = (if m' = m then tlist ms m @ [t] else tlist ms m')"
  "map_of (append_target t m ms) m' = None \<longleftrightarrow> m' \<noteq> m \<and> map_of ms m' = None"
  "wf_map ms \<Longrightarrow> wf_map (append_target t m ms)"
  by (simp_all add: append_target_def tlist_def)

lemma fold_append_target:
  "tlist (fold (append_target t) xs ms) m = tlist ms m @ replicate (count_list xs m) t"
  "map_of (fold (append_target t) xs ms) m = None \<longleftrightarrow> m \<notin> set xs \<and> map_of ms m = None"
  "wf_map ms \<Longrightarrow> wf_map (fold (append_target t) xs ms)"
  by (induction xs arbitrary: ms) (auto simp: append_target_laws replicate_app_Cons_same)

lemma build_fold:
  "tlist (fold (\<lambda>u. fold (append_target (target u)) (Modules u)) us ms) m = tlist ms m @ targets_of us m"
  "map_of (fold (\<lambda>u. fold (append_target (target u)) (Modules u)) us ms) m = None \<longleftrightarrow>
     (\<forall>u \<in> set us. m \<notin> set (Modules u)) \<and> map_of ms m = None"
  "wf_map ms \<Longrightarrow> wf_map (fold (\<lambda>u. fold (append_target (target u)) (Modules u)) us ms)"
  by (induction us arbitrary: ms) (auto simp: fold_append_target targets_of_def)

lemma wf_buildModuleTargets [simp]: "wf_map (buildModuleTargets us)"
  by (simp add: buildModuleTargets_def build_fold)

lemma targets_of_empty: "targets_of us m = [] \<longleftrightarrow> (\<forall>u \<in> set us. m \<notin> set (Modules u))"
  by (induction us) (auto simp: targets_of_def count_list_0_iff)

lemma set_targets_of: "set (targets_of us m) = target ` {u \<in> set us. m \<in> set (Modules u)}"
  by (induction us) (auto simp: targets_of_def count_list_0_iff set_replicate_conv_if)

lemma buildModuleTargets_lookup:
  "map_of (buildModuleTargets us) m = (if targets_of us m = [] then None else Some (targets_of us m))"
  using build_fold(1,2) [of us "[]" m] targets_of_empty [of us m]
  by (auto simp: buildModuleTargets_def tlist_def split: option.splits)

section \<open>The choice of a target\<close>

text \<open>FNV-1a on 32 bits (\<open>hash/fnv\<close>).\<close>

type_synonym hash32 = "32 word"

unbundle bit_operations_syntax

definition fnv_offset :: hash32 where "fnv_offset = 2166136261"
definition fnv_prime :: hash32 where "fnv_prime = 16777619"

definition fnv_step :: "hash32 \<Rightarrow> byte \<Rightarrow> hash32" where
  "fnv_step h b = (h XOR ucast b) * fnv_prime"

definition fnv32a :: "ip \<Rightarrow> hash32" where
  "fnv32a p = foldl fnv_step fnv_offset p"

text \<open>
  \<open>chooseTargetByClientIP\<close>; \<open>uint32(targetCount)\<close> keeps the low 32 bits of the count, the length
  of a slice in memory.
\<close>

definition normalized :: "ip \<Rightarrow> ip option" where
  "normalized p = (case To4 p of Some q \<Rightarrow> Some q | None \<Rightarrow> To16 p)"

definition chooseTargetByClientIP :: "ip \<Rightarrow> nat \<Rightarrow> nat" where
  "chooseTargetByClientIP p targetCount =
     (if targetCount \<le> 1 then 0
      else case normalized p of
             None \<Rightarrow> 0
           | Some q \<Rightarrow> unat (fnv32a q mod word_of_nat targetCount))"

lemma choose_less:
  assumes "0 < n" "n < 2 ^ 32"
  shows "chooseTargetByClientIP p n < n"
proof -
  have "unat (fnv32a q mod word_of_nat n) < n" for q
    using assms by (simp add: unat_mod unat_of_nat take_bit_nat_eq_self)
  with assms show ?thesis by (simp add: chooseTargetByClientIP_def split: option.splits)
qed

text \<open>Multiplication by the (odd) prime and the xor lose nothing in the low \<open>k\<close> bits.\<close>

lemma fnv_prime_inverse: "fnv_prime * 899433627 = 1"
  by (simp add: fnv_prime_def)

definition low :: "nat \<Rightarrow> hash32 \<Rightarrow> int" where
  "low k x = take_bit k (uint x)"

lemma low_mult: "k \<le> 32 \<Longrightarrow> low k (x * y) = take_bit k (low k x * uint y)"
  using le_imp_power_dvd [of k 32 "2 :: int"]
  by (simp add: low_def uint_word_ariths take_bit_eq_mod mod_mult_left_eq mod_mod_cancel)

lemma low_mult_prime:
  assumes "k \<le> 32"
  shows "low k (x * fnv_prime) = low k (y * fnv_prime) \<longleftrightarrow> low k x = low k y"
proof
  assume "low k (x * fnv_prime) = low k (y * fnv_prime)"
  then have "low k (x * fnv_prime * 899433627) = low k (y * fnv_prime * 899433627)"
    using assms by (simp only: low_mult [of k "x * fnv_prime"] low_mult [of k "y * fnv_prime"])
  then show "low k x = low k y" by (simp add: mult.assoc fnv_prime_inverse)
next
  assume "low k x = low k y"
  then show "low k (x * fnv_prime) = low k (y * fnv_prime)" using assms by (simp add: low_mult)
qed

lemma low_xor: "low k (x XOR y) = low k x XOR low k y"
  by (simp add: low_def uint_xor take_bit_xor)

lemma low_fnv_step:
  "k \<le> 32 \<Longrightarrow> low k (fnv_step h x) = low k (fnv_step h y) \<longleftrightarrow> low k (ucast x) = low k (ucast y)"
  by (simp add: fnv_step_def low_mult_prime low_xor) (metis xor.left_commute xor_self_eq xor.right_neutral)

lemma fnv32a_snoc: "fnv32a (p @ [b]) = fnv_step (fnv32a p) b"
  by (simp add: fnv32a_def)

lemma unat_mod_power:
  assumes "k < 32"
  shows "int (unat (h mod word_of_nat (2 ^ k))) = low k (h :: hash32)"
proof -
  have "unat (word_of_nat (2 ^ k) :: hash32) = 2 ^ k"
    using assms power_strict_increasing [of k 32 "2 :: nat"] by (subst unat_of_nat) simp
  then have "unat (h mod word_of_nat (2 ^ k)) = unat h mod 2 ^ k"
    by (simp only: unat_mod)
  then show ?thesis by (simp add: low_def take_bit_eq_mod zmod_int)
qed


lemma choose_four_power:
  assumes "length p = 4" "k < 32"
  shows "int (chooseTargetByClientIP p (2 ^ k)) = low k (fnv32a p)"
proof (cases "k = 0")
  case True
  then show ?thesis by (simp add: chooseTargetByClientIP_def low_def)
next
  case False
  then have "\<not> (2 :: nat) ^ k \<le> 1" using power_strict_increasing [of 0 k "2 :: nat"] by simp
  with assms unat_mod_power [OF assms(2), of "fnv32a p"] show ?thesis
    by (simp add: chooseTargetByClientIP_def normalized_def)
qed

section \<open>From the text of an address\<close>

text \<open>The text of an IPv4 address is parsed back to it.\<close>

lemma parse_v4_digit:
  assumes "d < 10" "n = 1 \<longrightarrow> v \<noteq> 0" "10 * v + d \<le> 255"
  shows "parse_v4 v n fs (char_of (48 + d) # s) = parse_v4 (10 * v + d) (Suc n) fs s"
  using assms by auto

lemma parse_v4_number:
  assumes "k < 256"
  shows "parse_v4 0 0 fs (show_nat k @ s) = parse_v4 k (length (show_nat k)) fs s"
proof -
  consider "k < 10" | "10 \<le> k" "k < 100" | "100 \<le> k" "k < 256" using assms by linarith
  then show ?thesis
  proof cases
    case 1
    then show ?thesis using parse_v4_digit [of k 0 0 fs s] by (simp add: show_nat_small)
  next
    case 2
    then have "show_nat k = [char_of (48 + k div 10), char_of (48 + k mod 10)]"
      using show_nat_step [of k] show_nat_small [of "k div 10"] by simp
    then show ?thesis
      using 2 parse_v4_digit [of "k div 10" 0 0 fs "char_of (48 + k mod 10) # s"] parse_v4_digit [of "k mod 10" 1 "k div 10" fs s]
      by auto
  next
    case 3
    then have b: "\<not> k < 10" "\<not> k div 10 < 10" "k div 100 < 10" "k div 10 div 10 = k div 100" "k div 10 \<le> 255" "k div 100 \<noteq> 0"
      by (auto simp: div_mult2_eq [symmetric])
    then have sh: "show_nat k = [char_of (48 + k div 100), char_of (48 + k div 10 mod 10), char_of (48 + k mod 10)]"
      using show_nat_step [of k] show_nat_step [of "k div 10"] show_nat_small [of "k div 100"] by simp
    have m: "10 * (k div 100) + k div 10 mod 10 = k div 10" using b(4) by (metis mult_div_mod_eq)
    have k: "10 * (k div 10) + k mod 10 = k" by simp
    have "parse_v4 0 0 fs (show_nat k @ s) = parse_v4 (k div 100) 1 fs (char_of (48 + k div 10 mod 10) # char_of (48 + k mod 10) # s)"
      using parse_v4_digit [of "k div 100" 0 0 fs "char_of (48 + k div 10 mod 10) # char_of (48 + k mod 10) # s"] b(3)
      by (simp add: sh)
    also have "\<dots> = parse_v4 (k div 10) 2 fs (char_of (48 + k mod 10) # s)"
      using parse_v4_digit [of "k div 10 mod 10" 1 "k div 100" fs "char_of (48 + k mod 10) # s"] b(5,6)
      unfolding m by (simp add: numeral_2_eq_2)
    also have "\<dots> = parse_v4 k 3 fs s"
      using parse_v4_digit [of "k mod 10" 2 "k div 10" fs s] 3 unfolding k by (simp add: numeral_3_eq_3)
    finally show ?thesis by (simp add: sh numeral_3_eq_3)
  qed
qed

lemma parse_v4_dotted: "length p = 4 \<Longrightarrow> parse_v4 0 0 [] (dotted p) = Some p"
proof -
  assume "length p = 4"
  then obtain a b c d where p: "p = [a, b, c, d]" by (auto simp: length_Suc_conv numeral_eq_Suc)
  have k: "unat x < 256" for x :: byte using unsigned_less [of x] by simp
  have dot: "\<not> is_digit (CHR ''.'')" by (simp add: is_digit_def)
  show ?thesis
    using parse_v4_number [OF k]  parse_v4_number [OF k, of _ _ "[]"]
    by (simp add: p dotted_def show_byte_def dot)
qed

lemma find_skip: "(\<forall>x \<in> set xs. \<not> P x) \<Longrightarrow> find P (xs @ ys) = find P ys"
  by (induction xs) auto

lemma show_byte_is_digit: "c \<in> set (show_byte b) \<Longrightarrow> is_digit c"
  by (auto simp: show_byte_def dest: show_nat_digits)

lemma ParseIP_dotted:
  assumes "length p = 4"
  shows "ParseIP (dotted p) = v4InV6Prefix @ p"
proof -
  obtain a b c d where p: "p = [a, b, c, d]" using assms by (auto simp: length_Suc_conv numeral_eq_Suc)
  have nd: "\<not> is_digit (CHR ''.'')" "\<not> is_digit (CHR '':'')" "\<not> is_digit (CHR ''%'')" by (simp_all add: is_digit_def)
  have "find (\<lambda>x. x = CHR ''.'' \<or> x = CHR '':'') (dotted p) = Some (CHR ''.'')"
    using nd show_byte_is_digit by (auto simp: p dotted_def) (subst find_skip, auto)+
  moreover have "CHR ''%'' \<notin> set (dotted p)" using nd show_byte_is_digit by (auto simp: p dotted_def)
  ultimately show ?thesis using parse_v4_dotted [OF assms] by (simp add: ParseIP_def)
qed

text \<open>So the choice for an IPv4 client, made from the text of its address, is that for the address.\<close>

lemma choose_ParseIP_v4:
  assumes "To4 p = Some q"
  shows "chooseTargetByClientIP (ParseIP (IP_String p)) n = chooseTargetByClientIP q n"
proof -
  have q: "length q = 4" by (rule To4_length [OF assms])
  have "p \<noteq> []" "length p = 4 \<or> length p = 16" using assms by (auto simp: To4_def split: if_splits)
  then have "IP_String p = dotted q" using assms by (auto simp: IP_String_def)
  then have "ParseIP (IP_String p) = v4InV6Prefix @ q" using ParseIP_dotted [OF q] by simp
  moreover have "To4 (v4InV6Prefix @ q) = Some q" using q by (simp add: To4_def v4InV6Prefix_def)
  ultimately show ?thesis using q by (simp add: chooseTargetByClientIP_def normalized_def)
qed

end
