(* ===== verification/RoutingProps.thy ===== *)
theory RoutingProps
  imports Routing
begin

text \<open>Properties of the routing functions.\<close>

text \<open>
  \<open>buildModuleTargets\<close> gives each module exactly the targets of the upstreams that list it,
  in the order of the upstreams and as often as they list it; a module no upstream lists has no
  entry, so no entry is empty.
\<close>

theorem module_targets_exact:
  "map_of (buildModuleTargets us) m =
     (if \<exists>u \<in> set us. m \<in> set (Modules u)
      then Some (concat (map (\<lambda>u. replicate (count_list (Modules u) m) (target u)) us)) else None) \<and>
   wf_map (buildModuleTargets us)"
  using targets_of_empty [of us m] by (auto simp: buildModuleTargets_lookup targets_of_def)

text \<open>
  The index \<open>chooseTargetByClientIP\<close> returns is in range, so \<open>targets[...]\<close> does not panic,
  and a client is the same client whether its address arrives as IPv4 or IPv4-mapped IPv6.
\<close>

theorem choice_in_range:
  assumes "0 < n" "n < 2 ^ 32"
  shows "chooseTargetByClientIP p n < n \<and> chooseTargetByClientIP (IPv4 a b c d) n = chooseTargetByClientIP [a, b, c, d] n"
  using choose_less [OF assms] by (simp add: chooseTargetByClientIP_def normalized_def)

theorem choice_in_range_witness:
  "chooseTargetByClientIP [192, 0, 2, 1] 3 < 3 \<and> chooseTargetByClientIP (IPv4 192 0 2 1) 3 = chooseTargetByClientIP [192, 0, 2, 1] 3"
  using choice_in_range [of 3 "[192, 0, 2, 1]" 192 0 2 1] by simp

lemma low_ucast_byte:
  assumes "k \<le> 8"
  shows "low k (ucast (x :: byte)) = int (unat x mod 2 ^ k)"
proof -
  have "low k (ucast x) = take_bit k (uint x)"
    using uint_lt2p [of x] by (simp add: low_def uint_up_ucast is_up)
  then show ?thesis by (simp add: take_bit_eq_mod zmod_int)
qed

text \<open>
  C32. Load balancing within an IPv4 /24: with \<open>2^k\<close> targets, \<open>k \<le> 8\<close>, two clients share a target
  exactly when the last \<open>k\<close> bits of their addresses agree, so every target gets the same number
  of the network's addresses.
\<close>

theorem subnet_balanced:
  assumes "k \<le> 8"
  shows "chooseTargetByClientIP [a, b, c, x] (2 ^ k) = chooseTargetByClientIP [a, b, c, y] (2 ^ k) \<longleftrightarrow>
    unat x mod 2 ^ k = unat y mod 2 ^ k"
proof -
  have ch: "int (chooseTargetByClientIP [a, b, c, z] (2 ^ k)) = low k (fnv_step (fnv32a [a, b, c]) z)" for z
    using choose_four_power [of "[a, b, c, z]" k] fnv32a_snoc [of "[a, b, c]" z] assms by simp
  have "chooseTargetByClientIP [a, b, c, x] (2 ^ k) = chooseTargetByClientIP [a, b, c, y] (2 ^ k) \<longleftrightarrow>
      low k (fnv_step (fnv32a [a, b, c]) x) = low k (fnv_step (fnv32a [a, b, c]) y)"
    by (simp flip: ch)
  also have "\<dots> \<longleftrightarrow> low k (ucast x) = low k (ucast y)"
    using assms by (simp add: low_fnv_step)
  finally show ?thesis using assms by (simp add: low_ucast_byte)
qed

theorem subnet_balanced_witness:
  "chooseTargetByClientIP [192, 0, 2, 7] 4 = chooseTargetByClientIP [192, 0, 2, 203] 4 \<and>
   chooseTargetByClientIP [192, 0, 2, 7] 4 \<noteq> chooseTargetByClientIP [192, 0, 2, 9] 4"
  using subnet_balanced [of 2 192 0 2 7 203] subnet_balanced [of 2 192 0 2 7 9] by simp

end
