(* ===== verification/Discovery.thy ===== *)
theory Discovery
  imports Routing
begin

text \<open>
  Module listings, from \<open>pkg/server/server.go\<close>: the list a client gets (\<open>listAllModules\<close>), and
  the discovery of an upstream's modules by asking it for its list
  (\<open>discoverModulesFromUpstream\<close>, \<open>discoverConfiguredModules\<close>).
\<close>

section \<open>Protocol constants\<close>

definition RsyncdVersionPrefix :: string where "RsyncdVersionPrefix = ''@RSYNCD:''"
definition RsyncdServerVersion :: string where "RsyncdServerVersion = ''@RSYNCD: 32.0 sha512 sha256 sha1 md5 md4'' @ [LF]"
definition RsyncdExit :: string where "RsyncdExit = ''@RSYNCD: EXIT'' @ [LF]"
definition defaultRsyncPortString :: string where "defaultRsyncPortString = ''873''"

section \<open>White space\<close>

text \<open>
  \<open>strings.Fields\<close> cuts a text at runs of Unicode white space. The white space characters are the
  six of ASCII and U+0085, U+00A0, U+1680, U+2000 to U+200A, U+2028, U+2029, U+202F, U+205F and
  U+3000 in their UTF-8 encodings; \<open>space_len s\<close> is the length of the one that \<open>s\<close> starts with,
  or 0. (The first byte of such an encoding never continues another character, so a scan by bytes
  finds exactly those that Go's scan by characters finds.)
\<close>

definition ascii_space :: "char \<Rightarrow> bool" where
  "ascii_space c \<longleftrightarrow> c \<in> {CHR 0x09, CHR 0x0A, CHR 0x0B, CHR 0x0C, CHR 0x0D, CHR 0x20}"

fun space_len :: "string \<Rightarrow> nat" where
  "space_len [] = 0"
| "space_len (a # s) =
     (if ascii_space a then 1
      else case s of
        [] \<Rightarrow> 0
      | b # t \<Rightarrow>
          if a = CHR 0xC2 \<and> b \<in> {CHR 0x85, CHR 0xA0} then 2
          else case t of
            [] \<Rightarrow> 0
          | c # u \<Rightarrow>
              if a = CHR 0xE1 \<and> b = CHR 0x9A \<and> c = CHR 0x80
               \<or> a = CHR 0xE2 \<and> b = CHR 0x80 \<and> (0x80 \<le> (of_char c :: nat) \<and> (of_char c :: nat) \<le> 0x8A \<or> c \<in> {CHR 0xA8, CHR 0xA9, CHR 0xAF})
               \<or> a = CHR 0xE2 \<and> b = CHR 0x81 \<and> c = CHR 0x9F
               \<or> a = CHR 0xE3 \<and> b = CHR 0x80 \<and> c = CHR 0x80 then 3 else 0)"

text \<open>\<open>strings.Fields\<close>: \<open>cur\<close> is the field being read.\<close>

function Fields_loop :: "string \<Rightarrow> string \<Rightarrow> string list" where
  "Fields_loop cur [] = (if cur = [] then [] else [cur])"
| "Fields_loop cur (c # s) =
     (if space_len (c # s) = 0 then Fields_loop (cur @ [c]) s
      else (if cur = [] then [] else [cur]) @ Fields_loop [] (drop (space_len (c # s) - 1) s))"
  by pat_completeness auto
termination by (relation "measure (\<lambda>(cur, s). length s)") auto

definition Fields :: "string \<Rightarrow> string list" where
  "Fields s = Fields_loop [] s"

text \<open>A text without the first byte of a white space character is one field.\<close>

definition word_byte :: "char \<Rightarrow> bool" where
  "word_byte c \<longleftrightarrow> \<not> ascii_space c \<and> c \<notin> {CHR 0xC2, CHR 0xE1, CHR 0xE2, CHR 0xE3}"

lemma space_len_word: "word_byte c \<Longrightarrow> space_len (c # s) = 0"
  by (auto simp: word_byte_def split: list.splits)

lemma space_len_ascii [simp]: "ascii_space c \<Longrightarrow> space_len (c # s) = 1"
  by simp

declare space_len.simps [simp del]

lemma Fields_loop_word:
  "(\<forall>c \<in> set w. word_byte c) \<Longrightarrow> Fields_loop cur (w @ s) = Fields_loop (cur @ w) s"
  by (induction w arbitrary: cur) (simp_all add: space_len_word)

lemma Fields_empty [simp]: "Fields [] = []"
  by (simp add: Fields_def)

lemma Fields_word: "(\<forall>c \<in> set w. word_byte c) \<Longrightarrow> w \<noteq> [] \<Longrightarrow> Fields w = [w]"
  using Fields_loop_word [of w "[]" "[]"] by (simp add: Fields_def)

lemma Fields_word_space:
  "(\<forall>c \<in> set w. word_byte c) \<Longrightarrow> w \<noteq> [] \<Longrightarrow> ascii_space c \<Longrightarrow> Fields (w @ c # s) = w # Fields s"
  using Fields_loop_word [of w "[]" "c # s"] by (simp add: Fields_def)

section \<open>Listing\<close>

text \<open>
  What \<open>listAllModules\<close> sends: the names of the modules, sorted, a line each, and the exit line.
\<close>

definition listing :: "string list \<Rightarrow> string" where
  "listing names = concat (map (\<lambda>n. n @ [LF]) (sort names)) @ RsyncdExit"

definition listAllModules :: "(string \<times> Target list) list \<Rightarrow> int \<Rightarrow> conn \<Rightarrow> goerr option \<times> conn" where
  "listAllModules ms timeout downConn = writeWithTimeout downConn (listing (map fst ms)) timeout"

text \<open>The order in which Go happens to iterate over the map does not show.\<close>

lemma listing_order: "mset ms = mset ms' \<Longrightarrow> listAllModules ms = listAllModules ms'"
proof -
  assume "mset ms = mset ms'"
  then have "mset (map fst ms) = mset (map fst ms')" by (metis mset_map)
  then have "sort (map fst ms) = sort (map fst ms')" by (metis mset_sort properties_for_sort sorted_sort)
  then show ?thesis by (simp add: listAllModules_def listing_def fun_eq_iff)
qed

section \<open>Discovery\<close>

text \<open>\<open>strings.TrimSuffix(line, "\n")\<close>\<close>

definition trim_LF :: "string \<Rightarrow> string" where
  "trim_LF s = (if s \<noteq> [] \<and> last s = LF then butlast s else s)"

definition arm_reader :: "int \<Rightarrow> conn bufreader \<Rightarrow> conn bufreader" where
  "arm_reader timeout b = (if 0 < timeout then b\<lparr>under := (under b)\<lparr>rarmed := True\<rparr>\<rparr> else b)"

definition ReadString :: "int \<Rightarrow> conn bufreader \<Rightarrow> ((string \<times> goerr option) \<times> conn bufreader) option" where
  "ReadString timeout b = ReadString_loop conn_read LF (arm_reader timeout b)"

text \<open>The loop of \<open>discoverModulesFromUpstream\<close>: \<open>modules\<close> is what it has collected so far.\<close>

partial_function (option) discover_loop ::
    "int \<Rightarrow> conn bufreader \<Rightarrow> string list \<Rightarrow> ((goerr + string list) \<times> conn bufreader) option" where
  "discover_loop readTimeout b modules =
     (case ReadString readTimeout b of
        None \<Rightarrow> None
      | Some ((line, e), b1) \<Rightarrow>
          (case e of
             Some err \<Rightarrow> Some (Inl (Wrapf ''read module list'' err), b1)
           | None \<Rightarrow>
               if hasPrefix (trim_LF line) RsyncdVersionPrefix then Some (Inr (sort modules), b1)
               else (case Fields (trim_LF line) of
                       [] \<Rightarrow> discover_loop readTimeout b1 []
                     | f # fs \<Rightarrow> discover_loop readTimeout b1 (modules @ [f]))))"

text \<open>
  The conversation on a connection: the greeting, the other side's version line, the request for
  the list, the list.
\<close>

definition discover_on :: "int \<Rightarrow> int \<Rightarrow> conn \<Rightarrow> ((goerr + string list) \<times> conn) option" where
  "discover_on readTimeout writeTimeout c =
     (case writeWithTimeout c RsyncdServerVersion writeTimeout of
        (Some e, c1) \<Rightarrow> Some (Inl (Wrapf ''send version'' e), c1)
      | (None, c1) \<Rightarrow>
          (case ReadString readTimeout \<lparr>buffered = [], readErr = None, under = c1\<rparr> of
             None \<Rightarrow> None
           | Some ((line, Some e), b) \<Rightarrow> Some (Inl (Wrapf ''read version'' e), under b)
           | Some ((line, None), b) \<Rightarrow>
               if \<not> hasPrefix line RsyncdVersionPrefix
               then Some (Inl (Errorq ''unexpected version response: '' line), under b)
               else (case writeWithTimeout (under b) [LF] writeTimeout of
                       (Some e, c2) \<Rightarrow> Some (Inl (Wrapf ''request module list'' e), c2)
                     | (None, c2) \<Rightarrow>
                         map_option (\<lambda>(r, b'). (r, under b')) (discover_loop readTimeout (b\<lparr>under := c2\<rparr>) []))))"

text \<open>
  \<open>discoverModulesFromUpstream\<close>: the result and the connection as \<open>defer conn.Close()\<close> leaves it
  (none when the dial failed).
\<close>

definition discoverModulesFromUpstream ::
    "(string \<Rightarrow> string \<Rightarrow> goerr + conn) \<Rightarrow> int \<Rightarrow> int \<Rightarrow> upstreamConfig \<Rightarrow> ((goerr + string list) \<times> conn option) option" where
  "discoverModulesFromUpstream dial readTimeout writeTimeout upstream =
     (case dialContextTCPOrUnix dial (addDefaultTCPPort (Addr (target upstream)) defaultRsyncPortString) of
        Inl e \<Rightarrow> Some (Inl (Wrapf ''dial'' e), None)
      | Inr c \<Rightarrow>
          (case (if UseProxyProtocol (target upstream)
                 then writeProxyProtocolHeader c (localAddr c) (remoteAddr c) writeTimeout else (None, c)) of
             (Some e, c1) \<Rightarrow> Some (Inl (Wrapf ''send proxy protocol header'' e), Some (conn_close c1))
           | (None, c1) \<Rightarrow>
               map_option (\<lambda>(r, c2). (r, Some (conn_close c2))) (discover_on readTimeout writeTimeout c1)))"

text \<open>
  \<open>DiscoverModulesWithProxyProtocol\<close> and \<open>DiscoverModules\<close>: discovery of an address that need not
  be configured.
\<close>

definition DiscoverModulesWithProxyProtocol ::
    "(string \<Rightarrow> string \<Rightarrow> goerr + conn) \<Rightarrow> int \<Rightarrow> int \<Rightarrow> string \<Rightarrow> bool \<Rightarrow> (goerr + string list) option" where
  "DiscoverModulesWithProxyProtocol dial readTimeout writeTimeout addr useProxyProtocol =
     map_option fst (discoverModulesFromUpstream dial readTimeout writeTimeout
       \<lparr>Name = addr, target = \<lparr>Upstream = addr, Addr = addr, UseProxyProtocol = useProxyProtocol\<rparr>,
        Modules = [], DiscoverModules = False, MaxActiveConns = 0, MaxQueuedConns = 0\<rparr>)"

definition DiscoverModules_addr ::
    "(string \<Rightarrow> string \<Rightarrow> goerr + conn) \<Rightarrow> int \<Rightarrow> int \<Rightarrow> string \<Rightarrow> (goerr + string list) option" where
  "DiscoverModules_addr dial readTimeout writeTimeout addr =
     DiscoverModulesWithProxyProtocol dial readTimeout writeTimeout addr False"

section \<open>Reading lines from a connection\<close>

text \<open>The bytes still to come out of a buffered reader.\<close>

definition pending :: "conn bufreader \<Rightarrow> string" where
  "pending b = buffered b @ stream (under b)"

lemma armed_read_0: "armed_read 0 = conn_read"
  by (simp add: armed_read_def fun_eq_iff)

lemma arm_reader_simps [simp]:
  "buffered (arm_reader t b) = buffered b" "stream (under (arm_reader t b)) = stream (under b)"
  "read_frame (under (arm_reader t b)) = read_frame (under b)"
  "clean_source.buffer_ok (arm_reader t b) = clean_source.buffer_ok b"
  by (simp_all add: arm_reader_def stream_def read_frame_def clean_source.buffer_ok_def clean_conn_def)

lemma ReadString_total:
  obtains line e b' where "ReadString t b = Some ((line, e), b')" "pending b = line @ pending b'"
    "read_frame (under b') = read_frame (under b)"
    "e = None \<Longrightarrow> \<exists>l. line = l @ [LF] \<and> LF \<notin> set l" "e \<noteq> None \<Longrightarrow> LF \<notin> set line"
proof -
  from conn_source.ReadString_returns [of 0 LF "arm_reader t b"] obtain line e b' where
    r: "ReadString t b = Some ((line, e), b')" and ok: "conn_source.read_ok LF (arm_reader t b) ((line, e), b')"
    by (auto simp: ReadString_def armed_read_0)
  have "pending b = line @ pending b'" "read_frame (under b') = read_frame (under b)"
    using ok by (simp_all add: conn_source.read_ok_def pending_def)
  moreover have "e = None \<Longrightarrow> \<exists>l. line = l @ [LF] \<and> LF \<notin> set l" "e \<noteq> None \<Longrightarrow> LF \<notin> set line"
    using ok by (auto simp: conn_source.read_ok_def)
  ultimately show thesis using r that by blast
qed

lemma ReadString_line:
  assumes "clean_source.buffer_ok b" "pending b = l @ LF # r" "LF \<notin> set l"
  obtains b' where "ReadString t b = Some ((l @ [LF], None), b')" "clean_source.buffer_ok b'" "pending b' = r"
    "read_frame (under b') = read_frame (under b)"
proof -
  have "\<exists>b'. ReadString_loop (armed_read 0) LF (arm_reader t b) = Some ((l @ [LF], None), b') \<and>
      clean_source.buffer_ok b' \<and> buffered b' @ stream (under b') = r \<and>
      read_frame (under b') = read_frame (under (arm_reader t b))"
    by (rule clean_source.cuts_line) (use assms in \<open>simp_all add: pending_def\<close>)
  then show thesis using that by (auto simp: ReadString_def armed_read_0 pending_def)
qed

lemma ReadString_end:
  assumes "clean_source.buffer_ok b" "pending b = l" "LF \<notin> set l"
  obtains b' where "ReadString t b = Some ((l, Some EOF), b')"
proof -
  have "\<exists>b'. ReadString_loop (armed_read 0) LF (arm_reader t b) = Some ((l, Some EOF), b')"
    by (rule clean_source.cuts_end) (use assms in \<open>simp_all add: pending_def\<close>)
  then show thesis using that by (auto simp: ReadString_def armed_read_0)
qed

section \<open>What discovery returns\<close>

lemma trim_LF_line [simp]: "trim_LF (l @ [LF]) = l"
  by (simp add: trim_LF_def)

text \<open>The loop returns whatever the other side sends.\<close>

lemma discover_loop_returns: "\<exists>r b'. discover_loop t b acc = Some (r, b') \<and> read_frame (under b') = read_frame (under b)"
proof (induction "length (pending b)" arbitrary: b acc rule: less_induct)
  case less
  obtain line e b1 where r: "ReadString t b = Some ((line, e), b1)" "pending b = line @ pending b1"
    "read_frame (under b1) = read_frame (under b)" "e = None \<Longrightarrow> \<exists>l. line = l @ [LF] \<and> LF \<notin> set l"
    by (rule ReadString_total [of t b]) blast
  show ?case
  proof (cases "e = None")
    case False
    with r show ?thesis by (subst discover_loop.simps) (auto split: option.splits)
  next
    case True
    then have "length (pending b1) < length (pending b)" using r(2,4) by auto
    from less.hyps [OF this] have
      IH: "\<exists>r b'. discover_loop t b1 acc' = Some (r, b') \<and> read_frame (under b') = read_frame (under b)" for acc'
      by (simp add: r(3))
    show ?thesis
      by (subst discover_loop.simps) (use r(1,3) True IH in \<open>simp split: list.split\<close>)
  qed
qed

text \<open>
  What the loop makes of complete lines: the first word of each, starting again at a blank one.
\<close>

fun scan :: "string list \<Rightarrow> string list \<Rightarrow> string list" where
  "scan acc [] = acc"
| "scan acc (l # ls) = (case Fields l of [] \<Rightarrow> scan [] ls | f # fs \<Rightarrow> scan (acc @ [f]) ls)"

lemma scan_append: "scan acc (ls @ ls') = scan (scan acc ls) ls'"
  by (induction ls arbitrary: acc) (simp_all split: list.splits)

abbreviation unlines :: "string list \<Rightarrow> string" where
  "unlines ls \<equiv> concat (map (\<lambda>l. l @ [LF]) ls)"

definition data_line :: "string \<Rightarrow> bool" where
  "data_line l \<longleftrightarrow> LF \<notin> set l \<and> \<not> hasPrefix l RsyncdVersionPrefix"

lemma discover_loop_step:
  assumes "clean_source.buffer_ok b" "pending b = l @ LF # r" "data_line l"
  obtains b' where "discover_loop t b acc = discover_loop t b' (scan acc [l])" "clean_source.buffer_ok b'"
    "pending b' = r" "read_frame (under b') = read_frame (under b)"
proof -
  from ReadString_line [OF assms(1,2)] assms(3) obtain b' where
    b: "ReadString t b = Some ((l @ [LF], None), b')" "clean_source.buffer_ok b'" "pending b' = r"
    "read_frame (under b') = read_frame (under b)"
    by (auto simp: data_line_def)
  then have "discover_loop t b acc = discover_loop t b' (scan acc [l])"
    using assms(3) by (subst discover_loop.simps) (auto simp: data_line_def split: list.splits)
  with b show thesis using that by blast
qed

lemma discover_loop_lines:
  assumes "clean_source.buffer_ok b" "pending b = unlines ls @ r" "\<forall>l \<in> set ls. data_line l"
  obtains b' where "discover_loop t b acc = discover_loop t b' (scan acc ls)" "clean_source.buffer_ok b'"
    "pending b' = r" "read_frame (under b') = read_frame (under b)"
proof -
  have "\<exists>b'. discover_loop t b acc = discover_loop t b' (scan acc ls) \<and> clean_source.buffer_ok b' \<and>
      pending b' = r \<and> read_frame (under b') = read_frame (under b)"
    using assms
  proof (induction ls arbitrary: b acc)
    case Nil
    then show ?case by auto
  next
    case (Cons l ls)
    from Cons.prems have "pending b = l @ LF # (unlines ls @ r)" "data_line l" by simp_all
    from discover_loop_step [OF Cons.prems(1) this] obtain b1 where
      b1: "discover_loop t b acc = discover_loop t b1 (scan acc [l])" "clean_source.buffer_ok b1"
      "pending b1 = unlines ls @ r" "read_frame (under b1) = read_frame (under b)" by metis
    have "scan acc (l # ls) = scan (scan acc [l]) ls" using scan_append [of acc "[l]" ls] by simp
    with Cons.IH [OF b1(2,3), of "scan acc [l]"] b1(1,4) Cons.prems(3) show ?case by simp
  qed
  then show thesis using that by blast
qed

lemma discover_loop_listing:
  assumes "clean_source.buffer_ok b" "pending b = unlines ls @ (RsyncdVersionPrefix @ x) @ LF # r"
    "\<forall>l \<in> set ls. data_line l" "LF \<notin> set x"
  obtains b' where "discover_loop t b acc = Some (Inr (sort (scan acc ls)), b')"
    "read_frame (under b') = read_frame (under b)"
proof -
  from discover_loop_lines [OF assms(1,2,3)] obtain b1 where
    b1: "discover_loop t b acc = discover_loop t b1 (scan acc ls)" "clean_source.buffer_ok b1"
    "pending b1 = (RsyncdVersionPrefix @ x) @ LF # r" "read_frame (under b1) = read_frame (under b)" by metis
  have "LF \<notin> set (RsyncdVersionPrefix @ x)" using assms(4) by (simp add: RsyncdVersionPrefix_def)
  from ReadString_line [OF b1(2,3) this] obtain b2 where
    "ReadString t b1 = Some (((RsyncdVersionPrefix @ x) @ [LF], None), b2)" "read_frame (under b2) = read_frame (under b1)"
    by metis
  with b1 that [of b2] show thesis
    by (subst (asm) (2) discover_loop.simps) (simp del: append_assoc)
qed

text \<open>A list that ends before the other side's exit line is an error, not a shorter list.\<close>

lemma discover_loop_cut:
  assumes "clean_source.buffer_ok b" "pending b = unlines ls @ x" "\<forall>l \<in> set ls. data_line l" "LF \<notin> set x"
  obtains b' where "discover_loop t b acc = Some (Inl (Wrapf ''read module list'' EOF), b')"
proof -
  from discover_loop_lines [OF assms(1,2,3)] obtain b1 where
    b1: "discover_loop t b acc = discover_loop t b1 (scan acc ls)" "clean_source.buffer_ok b1" "pending b1 = x"
    by metis
  from ReadString_end [OF b1(2,3) assms(4)] obtain b2 where "ReadString t b1 = Some ((x, Some EOF), b2)" by metis
  with b1 that [of b2] show thesis by (subst (asm) (2) discover_loop.simps) simp
qed

section \<open>The whole conversation\<close>

lemma buffer_ok_new [simp]: "clean_source.buffer_ok \<lparr>buffered = [], readErr = None, under = c\<rparr> \<longleftrightarrow> clean_conn c"
  by (simp add: clean_source.buffer_ok_def)

lemma pending_new [simp]: "pending \<lparr>buffered = [], readErr = None, under = c\<rparr> = stream c"
  by (simp add: pending_def)

lemma discover_on_returns: "\<exists>r c'. discover_on rt wt c = Some (r, c')"
proof -
  obtain e1 c1 where w1: "writeWithTimeout c RsyncdServerVersion wt = (e1, c1)" by (metis surj_pair)
  obtain line e2 b where rd: "ReadString rt \<lparr>buffered = [], readErr = None, under = c1\<rparr> = Some ((line, e2), b)"
    by (rule ReadString_total [of rt "\<lparr>buffered = [], readErr = None, under = c1\<rparr>"])
  obtain e3 c2 where w2: "writeWithTimeout (under b) [LF] wt = (e3, c2)" by (metis surj_pair)
  from discover_loop_returns [of rt "b\<lparr>under := c2\<rparr>" "[]"] show ?thesis
    using w1 rd w2 by (auto simp: discover_on_def split: option.splits)
qed

text \<open>Up to the list: the greeting and the request are written, the version line is read.\<close>

lemma discover_on_head:
  assumes "clean_conn c" "writes_ok c" "stream c = (RsyncdVersionPrefix @ v) @ LF # r" "LF \<notin> set v"
  obtains b where "discover_on rt wt c = map_option (\<lambda>(r, b'). (r, under b')) (discover_loop rt b [])"
    "clean_source.buffer_ok b" "pending b = r" "sent (under b) = sent c @ RsyncdServerVersion @ [LF]"
proof -
  from writeWithTimeout_ok [OF assms(2)] obtain c1 where
    w: "writeWithTimeout c RsyncdServerVersion wt = (None, c1)" "sent c1 = sent c @ RsyncdServerVersion"
    "rscript c1 = rscript c" "writes_ok c1" by metis
  let ?b = "\<lparr>buffered = [], readErr = None, under = c1\<rparr>"
  have 1: "clean_source.buffer_ok ?b" "pending ?b = (RsyncdVersionPrefix @ v) @ LF # r"
    using assms(1,3) w(3) by (simp_all add: clean_conn_def stream_def)
  have "LF \<notin> set (RsyncdVersionPrefix @ v)" using assms(4) by (simp add: RsyncdVersionPrefix_def)
  from ReadString_line [OF 1 this, of rt] obtain b where
    b: "ReadString rt ?b = Some (((RsyncdVersionPrefix @ v) @ [LF], None), b)" "clean_source.buffer_ok b" "pending b = r"
    "read_frame (under b) = read_frame c1" by auto
  then have ok: "writes_ok (under b)" "sent (under b) = sent c1"
    using w(4) by (simp_all add: writes_ok_def read_frame_def)
  from writeWithTimeout_ok [OF ok(1)] obtain c2 where
    w2: "writeWithTimeout (under b) [LF] wt = (None, c2)" "sent c2 = sent (under b) @ [LF]" "rscript c2 = rscript (under b)"
    by metis
  have "discover_on rt wt c = map_option (\<lambda>(r, b'). (r, under b')) (discover_loop rt (b\<lparr>under := c2\<rparr>) [])"
    using w(1) b(1) w2(1) hasPrefix_append [of RsyncdVersionPrefix "v @ [LF]"] by (simp add: discover_on_def)
  moreover have "clean_source.buffer_ok (b\<lparr>under := c2\<rparr>)" "pending (b\<lparr>under := c2\<rparr>) = r"
    using b(2,3) w2(3) by (simp_all add: clean_source.buffer_ok_def clean_conn_def pending_def stream_def)
  ultimately show thesis using that w(2) w2(2) ok(2) by simp
qed

lemma discover_on_listing:
  assumes "clean_conn c" "writes_ok c" "LF \<notin> set v" "LF \<notin> set x" "\<forall>l \<in> set ls. data_line l"
    and "stream c = (RsyncdVersionPrefix @ v) @ LF # unlines ls @ (RsyncdVersionPrefix @ x) @ LF # r"
  shows "\<exists>c'. discover_on rt wt c = Some (Inr (sort (scan [] ls)), c') \<and> sent c' = sent c @ RsyncdServerVersion @ [LF]"
proof -
  obtain b where
    b: "discover_on rt wt c = map_option (\<lambda>(r, b'). (r, under b')) (discover_loop rt b [])"
    "clean_source.buffer_ok b" "pending b = unlines ls @ (RsyncdVersionPrefix @ x) @ LF # r"
    "sent (under b) = sent c @ RsyncdServerVersion @ [LF]" by (rule discover_on_head [OF assms(1,2,6,3)])
  obtain b' where "discover_loop rt b [] = Some (Inr (sort (scan [] ls)), b')" "read_frame (under b') = read_frame (under b)"
    by (rule discover_loop_listing [OF b(2,3) assms(5,4)])
  with b(1,4) show ?thesis by (simp add: read_frame_def)
qed

lemma discover_on_cut:
  assumes "clean_conn c" "writes_ok c" "LF \<notin> set v" "LF \<notin> set x" "\<forall>l \<in> set ls. data_line l"
    and "stream c = (RsyncdVersionPrefix @ v) @ LF # unlines ls @ x"
  shows "\<exists>c'. discover_on rt wt c = Some (Inl (Wrapf ''read module list'' EOF), c')"
proof -
  obtain b where
    b: "discover_on rt wt c = map_option (\<lambda>(r, b'). (r, under b')) (discover_loop rt b [])"
    "clean_source.buffer_ok b" "pending b = unlines ls @ x" by (rule discover_on_head [OF assms(1,2,6,3)])
  obtain b' where "discover_loop rt b [] = Some (Inl (Wrapf ''read module list'' EOF), b')"
    by (rule discover_loop_cut [OF b(2,3) assms(5,4)])
  with b(1) show ?thesis by simp
qed

section \<open>Module names\<close>

text \<open>
  Names a listing can carry: not empty, without white space, not mistaken for the exit line.
\<close>

definition plain_name :: "string \<Rightarrow> bool" where
  "plain_name n \<longleftrightarrow> n \<noteq> [] \<and> (\<forall>c \<in> set n. word_byte c) \<and> \<not> hasPrefix n RsyncdVersionPrefix"

lemma plain_name_line: "plain_name n \<Longrightarrow> data_line n"
  by (auto simp: plain_name_def data_line_def word_byte_def ascii_space_def)

lemma scan_names: "(\<forall>n \<in> set ns. plain_name n) \<Longrightarrow> scan acc ns = acc @ ns"
  by (induction ns arbitrary: acc) (simp_all add: plain_name_def Fields_word)

lemma scan_blank: "scan acc (ls @ [] # ns) = scan [] ns"
  by (simp add: scan_append)

end
