(* ===== verification/DiscoveryProps.thy ===== *)
theory DiscoveryProps
  imports Discovery
begin

text \<open>Properties of module discovery.\<close>

definition test_upstream :: upstreamConfig where
  "test_upstream = \<lparr>Name = ''u1'', target = \<lparr>Upstream = ''u1'', Addr = ''10.0.0.2:873'', UseProxyProtocol = False\<rparr>,
     Modules = [], DiscoverModules = True, MaxActiveConns = 0, MaxQueuedConns = 0\<rparr>"

definition test_conn :: "string list \<Rightarrow> conn" where
  "test_conn bss = \<lparr>kind = TCPConn, localAddr = TCPAddr [10, 0, 0, 1] 40000 [], remoteAddr = TCPAddr [10, 0, 0, 2] 873 [],
     rscript = map (\<lambda>b. (b, None)) bss, wscript = [], sent = [], rarmed = False, warmed = False, linger0 = False,
     readClosed = False, connClosed = False\<rparr>"

lemma test_conn_simps [simp]:
  "clean_conn (test_conn bss)" "writes_ok (test_conn bss)" "stream (test_conn bss) = concat bss" "sent (test_conn bss) = []"
  by (auto simp: test_conn_def clean_conn_def writes_ok_def stream_def comp_def)

lemma test_upstream_simps [simp]: "\<not> UseProxyProtocol (target test_upstream)"
  by (simp add: test_upstream_def)

text \<open>
  Discovery always comes to an end, whatever the other side sends and however the network
  delivers it, and leaves its connection closed.
\<close>

theorem discovery_returns:
  "\<exists>r oc. discoverModulesFromUpstream dial rt wt u = Some (r, oc) \<and> (case oc of Some c \<Rightarrow> connClosed c | None \<Rightarrow> is_err r)"
proof (cases "dialContextTCPOrUnix dial (addDefaultTCPPort (Addr (target u)) defaultRsyncPortString)")
  case (Inl e)
  then show ?thesis by (simp add: discoverModulesFromUpstream_def)
next
  case (Inr c)
  obtain e1 c1 where h: "(if UseProxyProtocol (target u) then writeProxyProtocolHeader c (localAddr c) (remoteAddr c) wt
      else (None, c)) = (e1, c1)" by (metis surj_pair)
  obtain r c' where "discover_on rt wt c1 = Some (r, c')" using discover_on_returns by blast
  with Inr h show ?thesis
    by (cases e1) (auto simp: discoverModulesFromUpstream_def conn_close_def intro!: exI [of _ "Some _"])
qed

lemma discover_dialled:
  assumes "dialContextTCPOrUnix dial (addDefaultTCPPort (Addr (target u)) defaultRsyncPortString) = Inr c"
    "\<not> UseProxyProtocol (target u)" "discover_on rt wt c = Some (r, c')"
  shows "discoverModulesFromUpstream dial rt wt u = Some (r, Some (conn_close c'))"
  using assms by (simp add: discoverModulesFromUpstream_def)

text \<open>
  From an upstream that answers in the protocol, discovery gets the first word of every line
  after the last blank one, sorted, however the network cuts up the answer; it sends the greeting
  and the empty request and nothing else.
\<close>

theorem discovery_reads_listing:
  assumes "dialContextTCPOrUnix dial (addDefaultTCPPort (Addr (target u)) defaultRsyncPortString) = Inr c"
    and "\<not> UseProxyProtocol (target u)" "clean_conn c" "writes_ok c" "LF \<notin> set v" "LF \<notin> set x" "list_all data_line ls"
    and "stream c = (RsyncdVersionPrefix @ v) @ LF # unlines ls @ (RsyncdVersionPrefix @ x) @ LF # r"
  shows "\<exists>c'. discoverModulesFromUpstream dial rt wt u = Some (Inr (sort (scan [] ls)), Some c') \<and>
    sent c' = sent c @ RsyncdServerVersion @ [LF]"
proof -
  from assms(7) have "\<forall>l \<in> set ls. data_line l" by (simp add: list_all_iff)
  from discover_on_listing [OF assms(3-6) this assms(8)] discover_dialled [OF assms(1,2)] show ?thesis
    by (fastforce simp: conn_close_def)
qed

theorem discovery_reads_listing_witness:
  "\<exists>c'. discoverModulesFromUpstream (\<lambda>net a. Inr (test_conn [''@RSYN'', ''CD: 31.0'' @ [LF] @ ''ubuntu    the archive'' @ [LF] @ ''de'',
        ''bian'' @ [LF] @ ''@RSYNCD: EXIT'' @ [LF]])) 60 60 test_upstream = Some (Inr [''debian'', ''ubuntu''], Some c') \<and>
     sent c' = RsyncdServerVersion @ [LF]"
proof -
  have f: "Fields ''ubuntu    the archive'' = [''ubuntu'', ''the'', ''archive'']" "Fields ''debian'' = [''debian'']"
    by code_simp+
  have "list_all data_line [''ubuntu    the archive'', ''debian'']" by code_simp
  moreover have "sort [''ubuntu'', ''debian''] = [''debian'', ''ubuntu'']" by code_simp
  ultimately show ?thesis
    using discovery_reads_listing [of "\<lambda>net a. Inr (test_conn [''@RSYN'', ''CD: 31.0'' @ [LF] @ ''ubuntu    the archive'' @ [LF] @ ''de'',
        ''bian'' @ [LF] @ ''@RSYNCD: EXIT'' @ [LF]])" test_upstream _ "'' 31.0''" "'' EXIT''" "[''ubuntu    the archive'', ''debian'']" "[]" 60 60]
    by (simp add: dialContextTCPOrUnix_def RsyncdVersionPrefix_def f)
qed

text \<open>
  A listing that is cut off before the upstream's exit line is an error; discovery never
  takes a part of a list for the whole.
\<close>

theorem discovery_cut_is_error:
  assumes "dialContextTCPOrUnix dial (addDefaultTCPPort (Addr (target u)) defaultRsyncPortString) = Inr c"
    and "\<not> UseProxyProtocol (target u)" "clean_conn c" "writes_ok c" "LF \<notin> set v" "LF \<notin> set x" "list_all data_line ls"
    and "stream c = (RsyncdVersionPrefix @ v) @ LF # unlines ls @ x"
  shows "\<exists>c'. discoverModulesFromUpstream dial rt wt u = Some (Inl (Wrapf ''read module list'' EOF), Some c')"
proof -
  from assms(7) have "\<forall>l \<in> set ls. data_line l" by (simp add: list_all_iff)
  from discover_on_cut [OF assms(3-6) this assms(8)] discover_dialled [OF assms(1,2)] show ?thesis by blast
qed

theorem discovery_cut_is_error_witness:
  "\<exists>c'. discoverModulesFromUpstream (\<lambda>net a. Inr (test_conn [''@RSYNCD: 31.0'' @ [LF] @ ''debian'' @ [LF] @ ''@RSYNCD: EX''])) 60 60 test_upstream
     = Some (Inl (Wrapf ''read module list'' EOF), Some c')"
proof -
  have "list_all data_line [''debian'']" by code_simp
  then show ?thesis
    using discovery_cut_is_error [of "\<lambda>net a. Inr (test_conn [''@RSYNCD: 31.0'' @ [LF] @ ''debian'' @ [LF] @ ''@RSYNCD: EX''])" test_upstream _ "'' 31.0''"
        "''@RSYNCD: EX''" "[''debian'']" 60 60]
    by (simp add: dialContextTCPOrUnix_def RsyncdVersionPrefix_def)
qed

section \<open>One proxy behind another\<close>

text \<open>
  What a client that asks for the list gets from the proxy: the greeting, the message of the day
  if there is one and a newline after it, the list.
\<close>

definition proxy_answer :: "string \<Rightarrow> string list \<Rightarrow> string" where
  "proxy_answer motd names = RsyncdServerVersion @ (if motd = [] then [] else motd @ [LF]) @ listing names"

lemma proxy_answer_shape:
  assumes "(if motd = [] then [] else motd @ [LF]) = unlines mls"
  shows "proxy_answer motd names = (RsyncdVersionPrefix @ '' 32.0 sha512 sha256 sha1 md5 md4'') @ LF #
     unlines (mls @ sort names) @ (RsyncdVersionPrefix @ '' EXIT'') @ LF # []"
  using assms by (simp add: proxy_answer_def listing_def RsyncdServerVersion_def RsyncdVersionPrefix_def RsyncdExit_def)

lemma discover_proxy_answer:
  assumes "dialContextTCPOrUnix dial (addDefaultTCPPort (Addr (target u)) defaultRsyncPortString) = Inr c"
    and "\<not> UseProxyProtocol (target u)" "clean_conn c" "writes_ok c"
    and "\<forall>n \<in> set names. plain_name n" "(if motd = [] then [] else motd @ [LF]) = unlines mls" "\<forall>l \<in> set mls. data_line l"
    and "stream c = proxy_answer motd names"
  shows "\<exists>c'. discoverModulesFromUpstream dial rt wt u = Some (Inr (sort (scan [] mls @ names)), Some c')"
proof -
  have dl: "\<forall>l \<in> set (mls @ sort names). data_line l" using assms(5,7) plain_name_line by auto
  have "stream c = (RsyncdVersionPrefix @ '' 32.0 sha512 sha256 sha1 md5 md4'') @ LF #
     unlines (mls @ sort names) @ (RsyncdVersionPrefix @ '' EXIT'') @ LF # []"
    by (simp only: assms(8) proxy_answer_shape [OF assms(6)])
  from discover_on_listing [OF assms(3,4) _ _ dl this, of rt wt] obtain c' where
    "discover_on rt wt c = Some (Inr (sort (scan [] (mls @ sort names))), c')" by auto
  moreover have "sort (scan [] (mls @ sort names)) = sort (scan [] mls @ names)"
    using assms(5) by (intro properties_for_sort) (simp_all add: scan_append scan_names)
  ultimately show ?thesis using discover_dialled [OF assms(1,2)] by metis
qed



text \<open>
  C39. With a one-line message of the day and no newline at its end, as in the configuration's own
  example, a proxy behind another proxy takes the first word of that message for a module.
\<close>

theorem chained_discovery_motd_word:
  assumes "dialContextTCPOrUnix dial (addDefaultTCPPort (Addr (target u)) defaultRsyncPortString) = Inr c"
    and "\<not> UseProxyProtocol (target u)" "clean_conn c" "writes_ok c"
    and "list_all plain_name names" "plain_name w" "LF \<notin> set more_words"
    and "stream c = proxy_answer (w @ '' '' @ more_words) names"
  shows "\<exists>c'. discoverModulesFromUpstream dial rt wt u = Some (Inr (sort (w # names)), Some c')"
proof -
  have f: "Fields (w @ CHR '' '' # more_words) = w # Fields more_words"
    using assms(6) by (intro Fields_word_space) (auto simp: plain_name_def ascii_space_def)
  have "\<not> hasPrefix (w @ CHR '' '' # more_words) RsyncdVersionPrefix"
  proof
    assume "hasPrefix (w @ CHR '' '' # more_words) RsyncdVersionPrefix"
    then obtain r where r: "w @ CHR '' '' # more_words = RsyncdVersionPrefix @ r" by (auto simp: hasPrefix_iff)
    have "CHR '' '' \<notin> set RsyncdVersionPrefix" by (simp add: RsyncdVersionPrefix_def)
    then have "length RsyncdVersionPrefix \<le> length w"
      using arg_cong [OF r, of "\<lambda>x. x ! length w"] by (auto simp: nth_append split: if_splits)
    then have "hasPrefix w RsyncdVersionPrefix" using r by (simp add: hasPrefix_def append_eq_append_conv_if split: if_splits)
    then show False using assms(6) by (simp add: plain_name_def)
  qed
  moreover have "LF \<notin> set w" using assms(6) plain_name_line by (auto simp: data_line_def)
  ultimately have "data_line (w @ '' '' @ more_words)" using assms(7) by (simp add: data_line_def)
  then show ?thesis
    using discover_proxy_answer [OF assms(1-4), of names "w @ '' '' @ more_words" "[w @ '' '' @ more_words]" rt wt] assms(5,8) f
    by (simp add: list_all_iff)
qed

theorem chained_discovery_motd_word_witness:
  "\<exists>c'. discoverModulesFromUpstream (\<lambda>net a. Inr (test_conn [proxy_answer ''Served by rsync-proxy'' [''foo'']])) 60 60
     test_upstream = Some (Inr [''Served'', ''foo''], Some c')"
proof -
  have "list_all plain_name [''foo'']" "plain_name ''Served''" by code_simp+
  moreover have "sort [''Served'', ''foo''] = [''Served'', ''foo'']" by code_simp
  ultimately show ?thesis
    using chained_discovery_motd_word [of "\<lambda>net a. Inr (test_conn [proxy_answer ''Served by rsync-proxy'' [''foo'']])"
        test_upstream _ "[''foo'']" "''Served''" "''by rsync-proxy''" 60 60]
    by (simp add: dialContextTCPOrUnix_def)
qed

end
