(* ===== verification/Logging.thy ===== *)
theory Logging
  imports Net
begin

text \<open>
  \<open>pkg/logging/file.go\<close>: a logger that writes to a file, reopens it for log rotation and can be
  pointed at another one. The file system is a table of descriptors and the messages written
  through them, in order; whether a directory or a file can be opened is a parameter.
\<close>

unbundle bit_operations_syntax

record filesys =
  fds :: "(string \<times> bool) list"       \<comment> \<open>descriptor: its path, and whether it is open\<close>
  lines :: "(string \<times> string) list"   \<comment> \<open>path and message of each write\<close>
  stdlog :: "string list"             \<comment> \<open>the standard logger (\<open>log.Printf\<close>)\<close>

type_synonym fd = nat

text \<open>The bits of the standard library's flags that the code uses.\<close>

definition Ldate :: "64 word" where "Ldate = 1"
definition Ltime :: "64 word" where "Ltime = 2"
definition Lshortfile :: "64 word" where "Lshortfile = 16"

record FileLogger =
  filename :: string
  logf :: "fd option"
  lout :: "fd option"   \<comment> \<open>the output of \<open>l.l\<close>; \<open>io.Discard\<close> is \<open>None\<close>\<close>
  lflags :: "64 word"   \<comment> \<open>the flags of \<open>l.l\<close>: which prefix each line gets\<close>

text \<open>What the operating system answers: \<open>MkdirAll\<close> of a file's directory, \<open>OpenFile\<close>.\<close>

record osenv =
  MkdirAll :: "string \<Rightarrow> goerr option"
  OpenFile :: "string \<Rightarrow> goerr option"

definition fd_open :: "filesys \<Rightarrow> fd \<Rightarrow> bool" where
  "fd_open fs d \<longleftrightarrow> d < length (fds fs) \<and> snd (fds fs ! d)"

definition fd_close :: "fd option \<Rightarrow> filesys \<Rightarrow> filesys" where
  "fd_close d fs = (case d of None \<Rightarrow> fs | Some d \<Rightarrow>
     if d < length (fds fs) then fs\<lparr>fds := (fds fs)[d := (fst (fds fs ! d), False)]\<rparr> else fs)"

definition log_std :: "string \<Rightarrow> filesys \<Rightarrow> filesys" where
  "log_std m fs = fs\<lparr>stdlog := stdlog fs @ [m]\<rparr>"

text \<open>\<open>reopen\<close>\<close>

definition reopen :: "osenv \<Rightarrow> FileLogger \<Rightarrow> filesys \<Rightarrow> goerr option \<times> FileLogger \<times> filesys" where
  "reopen os l fs =
     (if filename l = [] then (None, l\<lparr>logf := None, lout := None\<rparr>, fd_close (logf l) fs)
      else case MkdirAll os (filename l) of
        Some e \<Rightarrow> (Some e, l, fs)
      | None \<Rightarrow>
          (case OpenFile os (filename l) of
             Some e \<Rightarrow> (Some e, l, fs)
           | None \<Rightarrow>
               let d = length (fds fs); fs1 = fs\<lparr>fds := fds fs @ [(filename l, True)]\<rparr>
               in (None, l\<lparr>logf := Some d, lout := Some d\<rparr>, fd_close (logf l) fs1)))"

definition Reopen :: "osenv \<Rightarrow> FileLogger \<Rightarrow> filesys \<Rightarrow> goerr option \<times> FileLogger \<times> filesys" where
  "Reopen os l fs = reopen os l fs"

definition SetFile :: "osenv \<Rightarrow> string \<Rightarrow> FileLogger \<Rightarrow> filesys \<Rightarrow> goerr option \<times> FileLogger \<times> filesys" where
  "SetFile os name l fs = reopen os (l\<lparr>filename := name\<rparr>) fs"

text \<open>
  \<open>NewFileLogger\<close>: the inner \<open>err\<close> of the \<open>if\<close> shadows the result, which stays nil when the file
  cannot be opened.
\<close>

definition NewFileLogger :: "osenv \<Rightarrow> string \<Rightarrow> filesys \<Rightarrow> (FileLogger option \<times> goerr option) \<times> filesys" where
  "NewFileLogger os name fs =
     (let l = \<lparr>filename = name, logf = None, lout = None, lflags = Ldate OR Ltime OR Lshortfile\<rparr>
      in if name = [] then ((Some l, None), fs)
         else case reopen os l fs of
                (Some e, l1, fs1) \<Rightarrow> ((None, None), fs1)
              | (None, l1, fs1) \<Rightarrow> ((Some l1, None), fs1))"

definition SetFlags :: "64 word \<Rightarrow> FileLogger \<Rightarrow> FileLogger" where
  "SetFlags flag l = l\<lparr>lflags := flag\<rparr>"

text \<open>
  \<open>init\<close> of \<open>pkg/logging/log.go\<close>: the flags of the standard logger, without date and time under a
  systemd journal.
\<close>

definition init_flags :: "bool \<Rightarrow> 64 word \<Rightarrow> 64 word" where
  "init_flags journal flags = (if journal then flags AND NOT (Ldate OR Ltime) else flags)"

text \<open>\<open>F\<close> and \<open>Ln\<close>, on the formatted message without its prefix; a write to a closed file goes to the standard log.\<close>

definition logF :: "FileLogger \<Rightarrow> string \<Rightarrow> filesys \<Rightarrow> filesys" where
  "logF l m fs = (case lout l of
      None \<Rightarrow> fs
    | Some d \<Rightarrow> if fd_open fs d then fs\<lparr>lines := lines fs @ [(fst (fds fs ! d), m)]\<rparr>
                else log_std ''logging output failed: file already closed'' fs)"

definition Ln :: "FileLogger \<Rightarrow> string \<Rightarrow> filesys \<Rightarrow> filesys" where
  "Ln l m fs = logF l m fs"

text \<open>\<open>Close\<close> closes the file but leaves the output as it is.\<close>

definition Close_log :: "FileLogger \<Rightarrow> filesys \<Rightarrow> FileLogger \<times> filesys" where
  "Close_log l fs = (case logf l of None \<Rightarrow> (l, fs) | Some d \<Rightarrow> (l\<lparr>logf := None\<rparr>, fd_close (Some d) fs))"

section \<open>Well-formed loggers\<close>

text \<open>A logger in use writes to its own open file, or discards.\<close>

definition logger_ok :: "filesys \<Rightarrow> FileLogger \<Rightarrow> bool" where
  "logger_ok fs l \<longleftrightarrow> lout l = logf l \<and> (case logf l of None \<Rightarrow> True | Some d \<Rightarrow> fd_open fs d)"

definition open_fds :: "filesys \<Rightarrow> nat set" where
  "open_fds fs = {d. fd_open fs d}"

lemma fd_open_upd [simp]: "fd_open (fs\<lparr>lines := x\<rparr>) = fd_open fs" "fd_open (fs\<lparr>stdlog := y\<rparr>) = fd_open fs"
  by (simp_all add: fd_open_def fun_eq_iff)

lemma fd_close_open: "fd_open (fd_close d fs) x \<longleftrightarrow> fd_open fs x \<and> d \<noteq> Some x"
  by (auto simp: fd_close_def fd_open_def nth_list_update split: option.splits)

lemma fd_close_simps [simp]: "lines (fd_close d fs) = lines fs" "stdlog (fd_close d fs) = stdlog fs"
  "length (fds (fd_close d fs)) = length (fds fs)"
  by (simp_all add: fd_close_def split: option.splits)

lemma fd_close_path [simp]: "x < length (fds fs) \<Longrightarrow> fst (fds (fd_close d fs) ! x) = fst (fds fs ! x)"
  by (auto simp: fd_close_def nth_list_update split: option.splits)

lemma fd_open_less: "fd_open fs d \<Longrightarrow> d < length (fds fs)"
  by (simp add: fd_open_def)

text \<open>\<open>reopen\<close> keeps a logger well-formed, and does not touch the files of others.\<close>

lemma reopen_cases:
  assumes "reopen os l fs = (e, l', fs')"
  obtains (fail) err where "e = Some err" "l' = l" "fs' = fs" "filename l \<noteq> []"
  | (discard) "e = None" "filename l = []" "l' = l\<lparr>logf := None, lout := None\<rparr>" "fs' = fd_close (logf l) fs"
  | (opened) "e = None" "filename l \<noteq> []" "l' = l\<lparr>logf := Some (length (fds fs)), lout := Some (length (fds fs))\<rparr>"
      "fs' = fd_close (logf l) (fs\<lparr>fds := fds fs @ [(filename l, True)]\<rparr>)"
proof (cases "filename l = []")
  case True
  with assms discard show ?thesis by (simp add: reopen_def)
next
  case False
  note ne = this
  show ?thesis
  proof (cases "MkdirAll os (filename l)")
    case (Some err)
    with assms ne show ?thesis by (intro fail [of err]) (simp_all add: reopen_def)
  next
    case mk: None
    show ?thesis
    proof (cases "OpenFile os (filename l)")
      case (Some err)
      with assms ne mk show ?thesis by (intro fail [of err]) (simp_all add: reopen_def)
    next
      case None
      with assms ne mk show ?thesis by (intro opened) (simp_all add: reopen_def Let_def)
    qed
  qed
qed

lemma fd_open_new: "fd_open (fs\<lparr>fds := fds fs @ [(n, True)]\<rparr>) x \<longleftrightarrow> fd_open fs x \<or> x = length (fds fs)"
  by (auto simp: fd_open_def nth_append less_Suc_eq)

lemma reopen_ok [inv_pres]:
  assumes "reopen os l fs = (e, l', fs')" "logger_ok fs l"
  shows "logger_ok fs' l'" "fd_open fs x \<Longrightarrow> logf l \<noteq> Some x \<Longrightarrow> fd_open fs' x"
    "logf l' = None \<or> logf l' = logf l \<or> \<not> fd_open fs (the (logf l'))"
  using assms
  by (cases rule: reopen_cases; auto simp: logger_ok_def fd_close_open fd_open_new split: option.splits dest: fd_open_less)+

lemma logger_ok_other:
  assumes "reopen os l fs = (e, l', fs')" "logger_ok fs l" "logger_ok fs k" "logf k = None \<or> logf k \<noteq> logf l"
  shows "logger_ok fs' k" "logf k = None \<or> logf k \<noteq> logf l'"
proof -
  show "logger_ok fs' k"
    using assms reopen_ok(2) [OF assms(1,2)] by (auto simp: logger_ok_def split: option.splits)
  show "logf k = None \<or> logf k \<noteq> logf l'"
    using reopen_ok(3) [OF assms(1,2)] assms(3,4) by (cases "logf l'") (auto simp: logger_ok_def)
qed

lemma logF_frame [simp]: "fds (logF l m fs) = fds fs" "fd_open (logF l m fs) = fd_open fs" "logger_ok (logF l m fs) = logger_ok fs"
  by (auto simp: logF_def log_std_def logger_ok_def fun_eq_iff split: option.splits)

lemma log_std_frame [simp]: "fds (log_std m fs) = fds fs" "fd_open (log_std m fs) = fd_open fs" "logger_ok (log_std m fs) = logger_ok fs"
  "lines (log_std m fs) = lines fs"
  by (auto simp: log_std_def logger_ok_def fun_eq_iff split: option.splits)

lemma logF_ok: "logger_ok fs l \<Longrightarrow> logF l m fs = (case logf l of None \<Rightarrow> fs
    | Some d \<Rightarrow> fs\<lparr>lines := lines fs @ [(fst (fds fs ! d), m)]\<rparr>)"
  by (auto simp: logF_def logger_ok_def split: option.splits)

end
