(* ===== verification/LoggingProps.thy ===== *)
theory LoggingProps
  imports Logging
begin

text \<open>Properties of the log files: what a logger that is opened, pointed elsewhere and reopened does.\<close>

unbundle bit_operations_syntax





text \<open>
  What \<open>NewFileLogger\<close> returns when the file cannot be opened: no logger and no error.
\<close>

lemma NewFileLogger_swallows_error:
  "name \<noteq> [] \<Longrightarrow> fst (reopen os \<lparr>filename = name, logf = None, lout = None, lflags = Ldate OR Ltime OR Lshortfile\<rparr> fs) = Some e \<Longrightarrow>
     fst (NewFileLogger os name fs) = (None, None)"
  by (auto simp: NewFileLogger_def Let_def split: prod.splits option.splits)

end
