(* ===== verification/Counters.thy ===== *)
theory Counters
  imports Prelude
begin

text \<open>
  The lazily created counters of \<open>pkg/server/server.go\<close>: per upstream, and per pair of module and
  upstream. Both live in a \<open>sync.Map\<close> that gets an entry at the first reference
  (\<open>getUpstreamCounters\<close>, \<open>getModuleCounters\<close>); the interface they share is the locale
  \<open>lazy_counters\<close>. An \<open>atomic.Uint64\<close> is a 64-bit word.
\<close>

type_synonym uint64 = "64 word"

record upstreamCounters =
  queueFull :: uint64
  dialError :: uint64

record moduleCounters =
  completed :: uint64
  sentBytes :: uint64
  recvBytes :: uint64

text \<open>
  \<open>moduleUpstreamKey\<close>, ordered by module and then by upstream, as the comparison functions of
  \<open>pkg/server/metrics.go\<close> order it (and its twin \<open>prometheusConnectionGroup\<close>).
\<close>

datatype moduleUpstreamKey = Key (keyModule: string) (keyUpstream: string)

instantiation moduleUpstreamKey :: linorder
begin

definition less_moduleUpstreamKey :: "moduleUpstreamKey \<Rightarrow> moduleUpstreamKey \<Rightarrow> bool" where
  "less_moduleUpstreamKey i j =
     (if keyModule i \<noteq> keyModule j then keyModule i < keyModule j else keyUpstream i < keyUpstream j)"

definition less_eq_moduleUpstreamKey :: "moduleUpstreamKey \<Rightarrow> moduleUpstreamKey \<Rightarrow> bool" where
  "less_eq_moduleUpstreamKey i j = (i < j \<or> i = j)"

instance
proof
  fix x y z :: moduleUpstreamKey
  show "x < y \<longleftrightarrow> x \<le> y \<and> \<not> y \<le> x"
    by (auto simp: less_eq_moduleUpstreamKey_def less_moduleUpstreamKey_def split: if_splits)
  show "x \<le> x" by (simp add: less_eq_moduleUpstreamKey_def)
  show "x \<le> y \<Longrightarrow> y \<le> z \<Longrightarrow> x \<le> z"
    by (auto simp: less_eq_moduleUpstreamKey_def less_moduleUpstreamKey_def split: if_splits)
  show "x \<le> y \<Longrightarrow> y \<le> x \<Longrightarrow> x = y"
    by (auto simp: less_eq_moduleUpstreamKey_def less_moduleUpstreamKey_def split: if_splits)
  show "x \<le> y \<or> y \<le> x"
    by (cases x; cases y) (auto simp: less_eq_moduleUpstreamKey_def less_moduleUpstreamKey_def)
qed

end

text \<open>\<open>prometheusLabelValueOrUnknown\<close>\<close>

definition prometheusLabelValueOrUnknown :: "string \<Rightarrow> string" where
  "prometheusLabelValueOrUnknown s = (if s = [] then ''unknown'' else s)"

section \<open>Creation at first reference\<close>

text \<open>\<open>Load\<close>, and when there is no entry \<open>LoadOrStore\<close> of a zero one.\<close>

definition load_or_create :: "'k \<Rightarrow> 'c \<Rightarrow> ('k \<times> 'c) list \<Rightarrow> 'c \<times> ('k \<times> 'c) list" where
  "load_or_create k zero m = (case map_of m k of Some c \<Rightarrow> (c, m) | None \<Rightarrow> (zero, AList.update k zero m))"

definition getUpstreamCounters :: "string \<Rightarrow> (string \<times> upstreamCounters) list \<Rightarrow> upstreamCounters \<times> (string \<times> upstreamCounters) list" where
  "getUpstreamCounters name m = load_or_create name \<lparr>queueFull = 0, dialError = 0\<rparr> m"

definition getModuleCounters :: "string \<times> string \<Rightarrow> (moduleUpstreamKey \<times> moduleCounters) list \<Rightarrow>
    moduleCounters \<times> (moduleUpstreamKey \<times> moduleCounters) list" where
  "getModuleCounters mu m =
     load_or_create (Key (prometheusLabelValueOrUnknown (fst mu)) (prometheusLabelValueOrUnknown (snd mu)))
       \<lparr>completed = 0, sentBytes = 0, recvBytes = 0\<rparr> m"

text \<open>\<open>Add\<close> on counters reached through the entry.\<close>

definition count_queueFull :: "string \<Rightarrow> (string \<times> upstreamCounters) list \<Rightarrow> (string \<times> upstreamCounters) list" where
  "count_queueFull name m =
     (let (c, m1) = getUpstreamCounters name m in AList.update name (c\<lparr>queueFull := queueFull c + 1\<rparr>) m1)"

definition count_dialError :: "string \<Rightarrow> (string \<times> upstreamCounters) list \<Rightarrow> (string \<times> upstreamCounters) list" where
  "count_dialError name m =
     (let (c, m1) = getUpstreamCounters name m in AList.update name (c\<lparr>dialError := dialError c + 1\<rparr>) m1)"

definition count_relay :: "string \<times> string \<Rightarrow> uint64 \<Rightarrow> uint64 \<Rightarrow> (moduleUpstreamKey \<times> moduleCounters) list \<Rightarrow>
    (moduleUpstreamKey \<times> moduleCounters) list" where
  "count_relay mu sent_n recv_n m =
     (let (c, m1) = getModuleCounters mu m
      in AList.update (Key (prometheusLabelValueOrUnknown (fst mu)) (prometheusLabelValueOrUnknown (snd mu)))
           (c\<lparr>completed := completed c + 1, sentBytes := sentBytes c + sent_n, recvBytes := recvBytes c + recv_n\<rparr>) m1)"

section \<open>The interface\<close>

text \<open>
  A client names an entry by a \<open>'r\<close>; \<open>key\<close> is the map's key for it. What it gets is the entry, and
  afterwards the entry is there; nothing else changes.
\<close>

locale lazy_counters =
  fixes get :: "'r \<Rightarrow> ('k \<times> 'c) list \<Rightarrow> 'c \<times> ('k \<times> 'c) list"
    and key :: "'r \<Rightarrow> 'k"
    and zero :: 'c
  assumes get_entry: "fst (get r m) = (case map_of m (key r) of Some c \<Rightarrow> c | None \<Rightarrow> zero)"
    and get_map: "map_of (snd (get r m)) = (map_of m)(key r \<mapsto> fst (get r m))"
    and get_wf: "wf_map m \<Longrightarrow> wf_map (snd (get r m))"
begin

text \<open>The value of a counter: an entry that is not there yet counts as zero.\<close>

definition val :: "('k \<times> 'c) list \<Rightarrow> 'k \<Rightarrow> 'c" where
  "val m k = (case map_of m k of Some c \<Rightarrow> c | None \<Rightarrow> zero)"

definition bump :: "('c \<Rightarrow> 'c) \<Rightarrow> 'r \<Rightarrow> ('k \<times> 'c) list \<Rightarrow> ('k \<times> 'c) list" where
  "bump up r m = (let (c, m1) = get r m in AList.update (key r) (up c) m1)"

lemma get_val: "fst (get r m) = val m (key r)"
  by (simp add: get_entry val_def)

text \<open>Looking at a counter changes no counter.\<close>

lemma val_get: "val (snd (get r m)) k = val m k"
  by (simp add: val_def get_map get_entry split: option.splits)

lemma get_twice: "get r (snd (get r m)) = (fst (get r m), snd (get r (snd (get r m))))"
  by (simp add: prod_eq_iff get_val val_get)

lemma val_bump: "val (bump up r m) k = (if k = key r then up (val m k) else val m k)"
  by (simp add: bump_def Let_def case_prod_beta val_def get_map get_entry split: option.splits)

lemma wf_bump: "wf_map m \<Longrightarrow> wf_map (bump up r m)"
  by (simp add: bump_def Let_def case_prod_beta get_wf)

lemma keys_bump: "fst ` set (bump up r m) = insert (key r) (fst ` set m)"
proof -
  have "dom (map_of (bump up r m)) = insert (key r) (dom (map_of m))"
    by (auto simp: bump_def Let_def case_prod_beta get_map)
  then show ?thesis by (simp add: dom_map_of_conv_image_fst)
qed

text \<open>The sum over all entries grows by what the bumped entry grows by.\<close>

definition total :: "('c \<Rightarrow> 'n) \<Rightarrow> ('k \<times> 'c) list \<Rightarrow> ('n::comm_monoid_add)" where
  "total g m = sum_list (map (\<lambda>x. g (snd x)) m)"

lemma total_keys: "wf_map m \<Longrightarrow> total g m = (\<Sum>k \<in> fst ` set m. g (val m k))"
proof (induction m)
  case Nil
  then show ?case by (simp add: total_def)
next
  case (Cons x m)
  obtain k c where x: "x = (k, c)" by (cases x)
  have k: "k \<notin> fst ` set m" and wf: "wf_map m" using Cons.prems x by simp_all
  have "(\<Sum>j \<in> fst ` set m. g (val (x # m) j)) = (\<Sum>j \<in> fst ` set m. g (val m j))"
    by (rule sum.cong) (use k x in \<open>auto simp: val_def\<close>)
  moreover have "val (x # m) k = c" by (simp add: val_def x)
  ultimately show ?case using Cons.IH [OF wf] k by (simp add: total_def x)
qed

lemma total_bump:
  assumes "wf_map m" "g zero = 0" "\<And>c. g (up c) = g c + a"
  shows "total g (bump up r m) = total g m + a"
proof -
  let ?K = "fst ` set m"
  let ?v = "g (val m (key r))"
  have other: "(\<Sum>k \<in> ?K - {key r}. g (val (bump up r m) k)) = (\<Sum>k \<in> ?K - {key r}. g (val m k))"
    by (rule sum.cong) (auto simp: val_bump)
  have "(\<Sum>k \<in> insert (key r) ?K. g (val (bump up r m) k)) = g (up (val m (key r))) + (\<Sum>k \<in> ?K - {key r}. g (val m k))"
    by (simp add: sum.insert_remove val_bump other)
  also have "\<dots> = (?v + (\<Sum>k \<in> ?K - {key r}. g (val m k))) + a" by (simp add: assms(3) ac_simps)
  also have "?v + (\<Sum>k \<in> ?K - {key r}. g (val m k)) = (\<Sum>k \<in> ?K. g (val m k))"
  proof (cases "key r \<in> ?K")
    case True
    then show ?thesis by (simp add: sum.remove)
  next
    case False
    then have "map_of m (key r) = None" by (simp add: map_of_eq_None_iff)
    then have "val m (key r) = zero" by (simp add: val_def)
    with False assms(2) show ?thesis by simp
  qed
  finally show ?thesis using assms(1) by (simp add: total_keys wf_bump keys_bump)
qed

text \<open>Bumps by different clients do not interfere, whatever order they come in.\<close>

lemma val_bumps_commute:
  assumes "\<And>c. up (up' c) = up' (up c)"
  shows "val (bump up r (bump up' r' m)) = val (bump up' r' (bump up r m))"
  using assms by (auto simp: fun_eq_iff val_bump)

end

lemma load_or_create_laws:
  "fst (load_or_create k z m) = (case map_of m k of Some c \<Rightarrow> c | None \<Rightarrow> z)"
  "map_of (snd (load_or_create k z m)) = (map_of m)(k \<mapsto> fst (load_or_create k z m))"
  "wf_map m \<Longrightarrow> wf_map (snd (load_or_create k z m))"
  by (auto simp: load_or_create_def fun_eq_iff split: option.splits)

definition mu_key :: "string \<times> string \<Rightarrow> moduleUpstreamKey" where
  "mu_key mu = Key (prometheusLabelValueOrUnknown (fst mu)) (prometheusLabelValueOrUnknown (snd mu))"

interpretation per_upstream: lazy_counters getUpstreamCounters "\<lambda>name. name" "\<lparr>queueFull = 0, dialError = 0\<rparr>"
  by unfold_locales (simp_all add: getUpstreamCounters_def load_or_create_laws)

interpretation per_module: lazy_counters getModuleCounters mu_key "\<lparr>completed = 0, sentBytes = 0, recvBytes = 0\<rparr>"
  by unfold_locales (simp_all add: getModuleCounters_def load_or_create_laws mu_key_def)

lemma count_bump:
  "count_queueFull name = per_upstream.bump (\<lambda>c. c\<lparr>queueFull := queueFull c + 1\<rparr>) name"
  "count_dialError name = per_upstream.bump (\<lambda>c. c\<lparr>dialError := dialError c + 1\<rparr>) name"
  "count_relay mu a b = per_module.bump (\<lambda>c. c\<lparr>completed := completed c + 1, sentBytes := sentBytes c + a, recvBytes := recvBytes c + b\<rparr>) mu"
  by (simp_all add: fun_eq_iff count_queueFull_def count_dialError_def count_relay_def per_upstream.bump_def
      per_module.bump_def mu_key_def Let_def case_prod_beta)

text \<open>
  Two clients may find no entry at the same time; the second \<open>LoadOrStore\<close> returns the entry of
  the first, so no count is lost.
\<close>

lemma second_store_finds_first:
  "load_or_create k z' (snd (load_or_create k z m)) = (fst (load_or_create k z m), snd (load_or_create k z m))"
  by (auto simp: load_or_create_def split: option.splits)

end
