(* ===== verification/Server.thy ===== *)
theory Server
  imports Discovery Queue Logging Counters
begin

text \<open>
  The state of the server (\<open>type Server\<close> in \<open>pkg/server/server.go\<close>) and its configuration
  (\<open>pkg/server/config.go\<close>): loading, reloading, the queues of the upstreams across reloads, and
  the lookups a relay makes. \<open>reloadLock\<close> makes a whole load and each lookup atomic.
\<close>

section \<open>State\<close>

type_synonym certificate = string
type_synonym qid = nat

record ConnInfo =
  connIdx :: "32 word"
  connLocal :: string
  connRemote :: string
  ConnectedAt :: int
  connModule :: string
  connUpstream :: string
  SentBytes :: uint64
  ReceivedBytes :: uint64

record listener =
  laddr :: string
  lclosed :: bool

text \<open>
  \<open>Server\<close>, with what its pointers reach: \<open>qheap\<close> holds the queues, \<open>files\<close> the log files.
  \<open>modules\<close>, \<open>connInfo\<close> and \<open>moduleCounters\<close> are iterated over, so they are association lists.
\<close>

record Server =
  ListenAddr :: string
  TLSListenAddr :: string
  HTTPListenAddr :: string
  ReadTimeout :: int
  WriteTimeout :: int
  Motd :: string
  accessLog :: FileLogger
  errorLog :: FileLogger
  smodules :: "(string \<times> Target list) list"
  supstreams :: "upstreamConfig list"
  tlsCertificate :: "certificate option"
  upstreamQueues :: "string \<rightharpoonup> qid"
  activeConnCount :: uint64
  connIndex :: "32 word"
  connInfo :: "(32 word \<times> ConnInfo) list"
  acceptedConnCount :: uint64
  completedConnCount :: uint64
  sentBytesTotal :: uint64
  recvBytesTotal :: uint64
  supstreamCounters :: "(string \<times> upstreamCounters) list"
  unknownModuleCount :: uint64
  smoduleCounters :: "(moduleUpstreamKey \<times> moduleCounters) list"
  TCPListener :: "listener option"
  TLSListener :: "listener option"
  HTTPListener :: "listener option"
  qheap :: "qworld list"
  files :: filesys

definition NewServer :: Server where
  "NewServer =
     (let l = \<lparr>filename = [], logf = None, lout = None, lflags = 19\<rparr>   \<comment> \<open>\<open>NewFileLogger\<close> of the empty name\<close>
      in \<lparr>ListenAddr = [], TLSListenAddr = [], HTTPListenAddr = [], ReadTimeout = 0, WriteTimeout = 0, Motd = [],
          accessLog = l, errorLog = l, smodules = [], supstreams = [], tlsCertificate = None, upstreamQueues = Map.empty,
          activeConnCount = 0, connIndex = 0, connInfo = [], acceptedConnCount = 0, completedConnCount = 0,
          sentBytesTotal = 0, recvBytesTotal = 0, supstreamCounters = [], unknownModuleCount = 0, smoduleCounters = [],
          TCPListener = None, TLSListener = None, HTTPListener = None, qheap = [],
          files = \<lparr>fds = [], lines = [], stdlog = []\<rparr>\<rparr>)"

section \<open>Configuration\<close>

record UpstreamSettings =
  Address :: string
  uModules :: "string list"
  uDiscoverModules :: bool
  uUseProxyProtocol :: bool
  uMaxActiveConns :: int
  uMaxQueuedConns :: int

record ProxySettings =
  Listen :: string
  ListenTLS :: string
  ListenHTTP :: string
  pMotd :: string
  AccessLog :: string
  ErrorLog :: string
  TLSCertFile :: string
  TLSKeyFile :: string

record Config =
  Proxy :: ProxySettings
  Upstreams :: "(string \<times> UpstreamSettings) list"

text \<open>
  The world of a load: the key pair loader, the resolvers, the operating system, and the dialer
  of the \<open>i\<close>-th discovery.
\<close>

record loadenv =
  LoadX509KeyPair :: "string \<Rightarrow> string \<Rightarrow> goerr + certificate"
  ResolveUnix :: "string \<Rightarrow> goerr option"
  ResolveTCP :: "string \<Rightarrow> goerr option"
  osys :: osenv
  dials :: "nat \<Rightarrow> string \<Rightarrow> string \<Rightarrow> goerr + conn"
  QuoteErr :: "string \<Rightarrow> string"

section \<open>Logging by the server\<close>

definition logError :: "string \<Rightarrow> Server \<Rightarrow> Server" where
  "logError m s = s\<lparr>files := logF (errorLog s) m (files s)\<rparr>"

definition logAccess :: "string \<Rightarrow> Server \<Rightarrow> Server" where
  "logAccess m s = s\<lparr>files := logF (accessLog s) m (files s)\<rparr>"

definition logStd :: "string \<Rightarrow> Server \<Rightarrow> Server" where
  "logStd m s = s\<lparr>files := log_std m (files s)\<rparr>"

fun Join :: "string list \<Rightarrow> string \<Rightarrow> string" where
  "Join [] sep = []"
| "Join [x] sep = x"
| "Join (x # y # xs) sep = x @ sep @ Join (y # xs) sep"

definition logModuleDiscoveryFailure :: "(string \<Rightarrow> string) \<Rightarrow> upstreamConfig \<Rightarrow> goerr \<Rightarrow> Server \<Rightarrow> Server" where
  "logModuleDiscoveryFailure qt u e s =
     (let m = ''[WARN] discover modules from upstream '' @ Name u @ '' ('' @ Addr (target u) @ ''): '' @ err_text qt e
      in logError m (logStd m s))"

definition logModuleDiscoverySuccess :: "upstreamConfig \<Rightarrow> string list \<Rightarrow> Server \<Rightarrow> Server" where
  "logModuleDiscoverySuccess u ms s =
     (let m = ''[INFO] discovered modules from upstream '' @ Name u @ '' ('' @ Addr (target u) @ ''): '' @ Join ms '', ''
      in logError m (logStd m s))"

section \<open>Discovery of the configured upstreams\<close>

text \<open>\<open>discoverConfiguredModules\<close>: \<open>i\<close> counts the dials, \<open>found\<close> is the map under construction.\<close>

definition discovery_error :: "upstreamConfig \<Rightarrow> goerr \<Rightarrow> goerr" where
  "discovery_error u e = Wrapf (''discover modules from upstream '' @ Name u @ '' ('' @ Addr (target u) @ '')'') e"

fun discoverConfiguredModules :: "loadenv \<Rightarrow> nat \<Rightarrow> upstreamConfig list \<Rightarrow> (string \<rightharpoonup> string list) \<Rightarrow> Server \<Rightarrow>
    ((goerr + (string \<rightharpoonup> string list)) \<times> Server) option" where
  "discoverConfiguredModules env i [] found s = Some (Inr found, s)"
| "discoverConfiguredModules env i (u # us) found s =
     (if \<not> DiscoverModules u then discoverConfiguredModules env i us found s
      else case discoverModulesFromUpstream (dials env i) (ReadTimeout s) (WriteTimeout s) u of
             None \<Rightarrow> None
           | Some (Inl e, c) \<Rightarrow>
               Some (Inl (discovery_error u e), logModuleDiscoveryFailure (QuoteErr env) u e s)
           | Some (Inr ms, c) \<Rightarrow>
               discoverConfiguredModules env (Suc i) us (found(Name u \<mapsto> ms)) (logModuleDiscoverySuccess u ms s))"

section \<open>Queues across reloads\<close>

text \<open>
  \<open>updateUpstreamQueuesLocked\<close>: \<open>old\<close> is \<open>s.upstreamQueues\<close>; an upstream that had a queue keeps it
  and gets the new limits, any other gets a fresh one.
\<close>

fun update_queues :: "(string \<rightharpoonup> qid) \<Rightarrow> upstreamConfig list \<Rightarrow> (string \<rightharpoonup> qid) \<Rightarrow> qworld list \<Rightarrow> (string \<rightharpoonup> qid) \<times> qworld list" where
  "update_queues old [] queues h = (queues, h)"
| "update_queues old (u # us) queues h =
     (case old (Name u) of
        None \<Rightarrow> update_queues old us (queues(Name u \<mapsto> length h)) (h @ [New (MaxActiveConns u) (MaxQueuedConns u)])
      | Some q \<Rightarrow> update_queues old us (queues(Name u \<mapsto> q)) (h[q := SetMax (MaxActiveConns u) (MaxQueuedConns u) (h ! q)]))"

definition updateUpstreamQueuesLocked :: "upstreamConfig list \<Rightarrow> Server \<Rightarrow> (string \<rightharpoonup> qid) \<times> qworld list" where
  "updateUpstreamQueuesLocked us s = update_queues (upstreamQueues s) us Map.empty (qheap s)"

section \<open>Loading\<close>

text \<open>The listener checks and the certificate, in the order of the code.\<close>

definition serverStarted :: "Server \<Rightarrow> bool" where
  "serverStarted s \<longleftrightarrow> TCPListener s \<noteq> None \<or> HTTPListener s \<noteq> None \<or> TLSListener s \<noteq> None"

definition check_tls :: "loadenv \<Rightarrow> ProxySettings \<Rightarrow> Server \<Rightarrow> (goerr + certificate option) \<times> Server" where
  "check_tls env p s =
     (if serverStarted s \<and> TLSListener s = None \<and> ListenTLS p \<noteq> []
      then (Inl (Errorf ''listen_tls cannot be enabled on reload; restart required''), s)
      else if serverStarted s \<and> TLSListener s \<noteq> None \<and> ListenTLS p = []
      then (Inl (Errorf ''listen_tls cannot be disabled on reload; restart required''), s)
      else if ListenTLS p = [] then
        (Inr None, if TLSCertFile p \<noteq> [] \<or> TLSKeyFile p \<noteq> []
                   then logStd ''[WARN] tls_cert_file or tls_key_file is set but listen_tls is not set'' s else s)
      else if TLSCertFile p = [] \<or> TLSKeyFile p = []
      then (Inl (Errorf ''listen_tls requires tls_cert_file and tls_key_file''), s)
      else case LoadX509KeyPair env (TLSCertFile p) (TLSKeyFile p) of
             Inl e \<Rightarrow> (Inl (Wrapf ''load tls certificate'' e), s)
           | Inr cert \<Rightarrow> (Inr (Some cert), s))"

text \<open>The loop over the sorted names of the upstreams.\<close>

definition load_upstream :: "loadenv \<Rightarrow> string \<Rightarrow> UpstreamSettings \<Rightarrow> goerr + upstreamConfig" where
  "load_upstream env name v =
     (if uModules v = [] \<and> \<not> uDiscoverModules v
      then Inl (Errorf (''upstream='' @ name @ '' must set modules or discover_modules''))
      else case validateTCPOrUnixAddr (ResolveUnix env) (ResolveTCP env) (Address v) of
             Some e \<Rightarrow> Inl (Wrapsf ''resolve address'' e ('', upstream='' @ name @ '', address='' @ Address v))
           | None \<Rightarrow> Inr \<lparr>Name = name,
                 target = \<lparr>Upstream = name, Addr = Address v, UseProxyProtocol = uUseProxyProtocol v\<rparr>,
                 Modules = uModules v, DiscoverModules = uDiscoverModules v,
                 MaxActiveConns = uMaxActiveConns v, MaxQueuedConns = uMaxQueuedConns v\<rparr>)"

fun load_upstreams :: "loadenv \<Rightarrow> (string \<rightharpoonup> UpstreamSettings) \<Rightarrow> string list \<Rightarrow> goerr + upstreamConfig list" where
  "load_upstreams env c [] = Inr []"
| "load_upstreams env c (n # ns) =
     (case c n of
        None \<Rightarrow> load_upstreams env c ns   \<comment> \<open>not reached: the names are the map's keys\<close>
      | Some v \<Rightarrow> bindR (load_upstream env n v) (\<lambda>u. bindR (load_upstreams env c ns) (\<lambda>us. Inr (u # us))))"

text \<open>\<open>SetFile\<close> on both logs; the first error stops it.\<close>

definition open_logs :: "osenv \<Rightarrow> ProxySettings \<Rightarrow> Server \<Rightarrow> goerr option \<times> Server" where
  "open_logs oe p s =
     (case SetFile oe (AccessLog p) (accessLog s) (files s) of
        (Some e, l, fs) \<Rightarrow> (Some e, s\<lparr>accessLog := l, files := fs\<rparr>)
      | (None, l, fs) \<Rightarrow>
          (let s1 = s\<lparr>accessLog := l, files := fs\<rparr> in
           case SetFile oe (ErrorLog p) (errorLog s1) (files s1) of
             (e, l2, fs2) \<Rightarrow> (e, s1\<lparr>errorLog := l2, files := fs2\<rparr>)))"

definition set_addrs :: "ProxySettings \<Rightarrow> Server \<Rightarrow> Server" where
  "set_addrs p s =
     s\<lparr>ListenAddr := (if ListenAddr s = [] then Listen p else ListenAddr s),
       TLSListenAddr := (if TLSListenAddr s = [] then ListenTLS p else TLSListenAddr s),
       HTTPListenAddr := (if HTTPListenAddr s = [] then ListenHTTP p else HTTPListenAddr s)\<rparr>"

text \<open>The assignments at the end, under the lock.\<close>

definition install :: "ProxySettings \<Rightarrow> upstreamConfig list \<Rightarrow> certificate option \<Rightarrow> Server \<Rightarrow> Server" where
  "install p resolved cert s =
     (let (queues, h) = updateUpstreamQueuesLocked resolved s
      in s\<lparr>Motd := pMotd p, smodules := buildModuleTargets resolved, supstreams := resolved,
           upstreamQueues := queues, qheap := h, tlsCertificate := cert\<rparr>)"

definition loadConfig :: "loadenv \<Rightarrow> Config \<Rightarrow> bool \<Rightarrow> Server \<Rightarrow> (goerr option \<times> Server) option" where
  "loadConfig env c openLog s =
     (if Upstreams c = [] then Some (Some (Errorf ''no upstream found''), s)
      else case check_tls env (Proxy c) s of
        (Inl e, s1) \<Rightarrow> Some (Some e, s1)
      | (Inr cert, s1) \<Rightarrow>
          (case load_upstreams env (map_of (Upstreams c)) (sort (map fst (Upstreams c))) of
             Inl e \<Rightarrow> Some (Some e, s1)
           | Inr us \<Rightarrow>
               (case (if openLog then discoverConfiguredModules env 0 us Map.empty s1 else Some (Inr Map.empty, s1)) of
                  None \<Rightarrow> None
                | Some (Inl e, s2) \<Rightarrow> Some (Some e, s2)
                | Some (Inr found, s2) \<Rightarrow>
                    (let s3 = set_addrs (Proxy c) s2 in
                     case (if openLog then open_logs (osys env) (Proxy c) s3 else (None, s3)) of
                       (Some e, s4) \<Rightarrow> Some (Some e, s4)
                     | (None, s4) \<Rightarrow> Some (None, install (Proxy c) (resolveUpstreams us found) cert s4)))))"

text \<open>
  \<open>ReadConfig\<close> and \<open>ReadConfigFromFile\<close>: the file and the TOML decoder are parameters (the bytes
  of the file, and what the decoder makes of them).
\<close>

definition ReadConfig :: "loadenv \<Rightarrow> (string \<Rightarrow> goerr + Config) \<Rightarrow> string \<Rightarrow> bool \<Rightarrow> Server \<Rightarrow> (goerr option \<times> Server) option" where
  "ReadConfig env Decode r openLog s =
     (let s1 = logStd ''[INFO] loading config'' s in
      case Decode r of Inl e \<Rightarrow> Some (Some e, s1) | Inr c \<Rightarrow> loadConfig env c openLog s1)"

definition ReadConfigFromFile :: "loadenv \<Rightarrow> (string \<Rightarrow> goerr + Config) \<Rightarrow> goerr + string \<Rightarrow> bool \<Rightarrow> Server \<Rightarrow> (goerr option \<times> Server) option" where
  "ReadConfigFromFile env Decode Open openLog s =
     (case Open of Inl e \<Rightarrow> Some (Some e, s) | Inr r \<Rightarrow> ReadConfig env Decode r openLog s)"

section \<open>Lookups\<close>

definition getTargetsForModule :: "Server \<Rightarrow> string \<Rightarrow> Target list option" where
  "getTargetsForModule s m = map_of (smodules s) m"

definition getQueueForUpstream :: "Server \<Rightarrow> string \<Rightarrow> qid option" where
  "getQueueForUpstream s name = upstreamQueues s name"

definition getTLSCertificate :: "Server \<Rightarrow> goerr + certificate" where
  "getTLSCertificate s = (case tlsCertificate s of None \<Rightarrow> Inl (Errorf ''tls certificate is not configured'') | Some c \<Rightarrow> Inr c)"

text \<open>\<open>ListUpstreamModules\<close>\<close>

fun find_upstream :: "string \<Rightarrow> upstreamConfig list \<Rightarrow> upstreamConfig option" where
  "find_upstream name [] = None"
| "find_upstream name (u # us) = (if Name u \<noteq> name then find_upstream name us else Some u)"

definition ListUpstreamModules :: "(string \<Rightarrow> string \<Rightarrow> goerr + conn) \<Rightarrow> Server \<Rightarrow> string \<Rightarrow> bool \<Rightarrow> (goerr + string list) option" where
  "ListUpstreamModules dial s name forceDiscover =
     (case find_upstream name (supstreams s) of
        None \<Rightarrow> Some (Inl (Errorf (''unknown upstream: '' @ name)))
      | Some u \<Rightarrow>
          if forceDiscover then
            (case discoverModulesFromUpstream dial (ReadTimeout s) (WriteTimeout s) u of
               None \<Rightarrow> None
             | Some (Inl e, c) \<Rightarrow> Some (Inl (discovery_error u e))
             | Some (Inr ms, c) \<Rightarrow> Some (Inr ms))
          else Some (Inr (sort (Modules u))))"

end
