(* ===== verification/ServerInv.thy ===== *)
theory ServerInv
  imports Server
begin

text \<open>
  Lemmas on loading a configuration: what the stages before the final assignments leave alone,
  what becomes of the queues, and the invariant that the routing state keeps.
\<close>

section \<open>The stages that can fail\<close>

text \<open>
  The state without the log files and the listen addresses, which are all that a load touches
  before its last error.
\<close>

definition core :: "Server \<Rightarrow> Server" where
  "core s = s\<lparr>accessLog := \<lparr>filename = [], logf = None, lout = None, lflags = 0\<rparr>, errorLog := \<lparr>filename = [], logf = None, lout = None, lflags = 0\<rparr>,
     files := \<lparr>fds = [], lines = [], stdlog = []\<rparr>, ListenAddr := [], TLSListenAddr := [], HTTPListenAddr := []\<rparr>"

lemma core_logs [simp]:
  "core (logError m s) = core s" "core (logAccess m s) = core s" "core (logStd m s) = core s" "core (set_addrs p s) = core s"
  by (simp_all add: core_def logError_def logAccess_def logStd_def set_addrs_def)

lemma core_discovery_logs [simp]:
  "core (logModuleDiscoveryFailure qt u e s) = core s" "core (logModuleDiscoverySuccess u ms s) = core s"
  by (simp_all add: logModuleDiscoveryFailure_def logModuleDiscoverySuccess_def Let_def)

lemma check_tls_core: "check_tls env p s = (r, s') \<Longrightarrow> core s' = core s"
  by (auto simp: check_tls_def split: if_splits sum.splits)

lemma open_logs_core: "open_logs oe p s = (e, s') \<Longrightarrow> core s' = core s"
  by (auto simp: open_logs_def core_def Let_def split: prod.splits option.splits)

lemma discoverConfiguredModules_core:
  "discoverConfiguredModules env i us found s = Some (r, s') \<Longrightarrow> core s' = core s"
proof (induction us arbitrary: i found s)
  case Nil
  then show ?case by simp
next
  case (Cons u us)
  show ?case
  proof (cases "DiscoverModules u")
    case False
    with Cons show ?thesis by simp
  next
    case True
    with Cons.prems obtain x c where x: "discoverModulesFromUpstream (dials env i) (ReadTimeout s) (WriteTimeout s) u = Some (x, c)"
      by (auto split: option.splits)
    show ?thesis
    proof (cases x)
      case (Inl e)
      with Cons.prems True x show ?thesis by auto
    next
      case (Inr ms)
      with Cons.prems True x have
        "discoverConfiguredModules env (Suc i) us (found(Name u \<mapsto> ms)) (logModuleDiscoverySuccess u ms s) = Some (r, s')" by simp
      from Cons.IH [OF this] show ?thesis by simp
    qed
  qed
qed

text \<open>\<open>loadConfig\<close> in two: an error with the core untouched, or the final assignments.\<close>

lemma loadConfig_cases:
  assumes "loadConfig env c ol s = Some (r, s')"
  obtains (failed) e where "r = Some e" "core s' = core s"
  | (loaded) us found cert s1 where "r = None" "Upstreams c \<noteq> []"
      "load_upstreams env (map_of (Upstreams c)) (sort (map fst (Upstreams c))) = Inr us"
      "core s1 = core s" "s' = install (Proxy c) (resolveUpstreams us found) cert s1"
      "cert = None \<longleftrightarrow> ListenTLS (Proxy c) = []"
      "ol \<or> found = Map.empty"
proof (cases "Upstreams c = []")
  case True
  with assms failed show ?thesis by (auto simp: loadConfig_def)
next
  case ne: False
  obtain t s1 where t: "check_tls env (Proxy c) s = (t, s1)" by (metis surj_pair)
  note c1 = check_tls_core [OF t]
  let ?lu = "load_upstreams env (map_of (Upstreams c)) (sort (map fst (Upstreams c)))"
  show ?thesis
  proof (cases t)
    case (Inl e)
    with assms ne t c1 failed show ?thesis by (auto simp: loadConfig_def)
  next
    case cert: (Inr cert)
    have certs: "cert = None \<longleftrightarrow> ListenTLS (Proxy c) = []"
      using t cert by (auto simp: check_tls_def split: if_splits sum.splits)
    show ?thesis
    proof (cases ?lu)
      case (Inl e)
      with assms ne t cert c1 failed show ?thesis by (auto simp: loadConfig_def)
    next
      case us: (Inr us)
      let ?d = "if ol then discoverConfiguredModules env 0 us Map.empty s1 else Some (Inr Map.empty, s1)"
      obtain x s2 where d: "?d = Some (x, s2)" using assms ne t cert us by (auto simp: loadConfig_def split: option.splits)
      have c2: "core s2 = core s" using d c1 discoverConfiguredModules_core by (metis option.inject prod.inject)
      show ?thesis
      proof (cases x)
        case (Inl e)
        with assms ne t cert us d c2 failed show ?thesis by (auto simp: loadConfig_def)
      next
        case found: (Inr found)
        let ?s3 = "set_addrs (Proxy c) s2"
        obtain e s4 where o4: "(if ol then open_logs (osys env) (Proxy c) ?s3 else (None, ?s3)) = (e, s4)" by (metis surj_pair)
        have c4: "core s4 = core s" using o4 open_logs_core c2 by (auto split: if_splits)
        have f0: "ol \<or> found = Map.empty" using d found by auto
        show ?thesis
          using assms ne t cert us d found o4 c4 failed loaded [OF _ ne us c4 _ certs f0]
          by (cases e) (auto simp: loadConfig_def Let_def)
      qed
    qed
  qed
qed

text \<open>A load always comes to an end.\<close>

lemma discoverModulesFromUpstream_Some: "discoverModulesFromUpstream dial rt wt u \<noteq> None"
  by (auto simp: discoverModulesFromUpstream_def discover_on_returns split: sum.splits option.splits prod.splits)

lemma discoverConfiguredModules_Some: "discoverConfiguredModules env i us found s \<noteq> None"
  by (induction us arbitrary: i found s) (auto simp: discoverModulesFromUpstream_Some split: option.splits sum.splits)

lemma loadConfig_Some: "loadConfig env c ol s \<noteq> None"
  by (auto simp: loadConfig_def Let_def discoverConfiguredModules_Some split: option.splits sum.splits prod.splits if_splits)

section \<open>Names\<close>

lemma load_upstream_Inr:
  "load_upstream env n v = Inr u \<Longrightarrow>
     Name u = n \<and> target u = \<lparr>Upstream = n, Addr = Address v, UseProxyProtocol = uUseProxyProtocol v\<rparr> \<and>
     MaxActiveConns u = uMaxActiveConns v \<and> MaxQueuedConns u = uMaxQueuedConns v \<and>
     Modules u = uModules v \<and> DiscoverModules u = uDiscoverModules v \<and> (uModules v \<noteq> [] \<or> uDiscoverModules v)"
  by (auto simp: load_upstream_def split: if_splits option.splits)

lemma load_upstreams_Inr:
  assumes "load_upstreams env c ns = Inr us" "\<And>n. n \<in> set ns \<Longrightarrow> c n \<noteq> None"
  shows "map Name us = ns" "\<forall>u \<in> set us. \<exists>v. c (Name u) = Some v \<and> load_upstream env (Name u) v = Inr u"
proof -
  have "map Name us = ns \<and> (\<forall>u \<in> set us. \<exists>v. c (Name u) = Some v \<and> load_upstream env (Name u) v = Inr u)"
    using assms
  proof (induction ns arbitrary: us)
    case Nil
    then show ?case by simp
  next
    case (Cons n ns)
    from Cons.prems(2) obtain v where v: "c n = Some v" by fastforce
    with Cons.prems(1) obtain u us' where u: "load_upstream env n v = Inr u" "load_upstreams env c ns = Inr us'" "us = u # us'"
      by auto
    have "map Name us' = ns \<and> (\<forall>u \<in> set us'. \<exists>v. c (Name u) = Some v \<and> load_upstream env (Name u) v = Inr u)"
      by (rule Cons.IH [OF u(2)]) (use Cons.prems(2) in auto)
    with u v load_upstream_Inr [OF u(1)] show ?case by auto
  qed
  then show "map Name us = ns" "\<forall>u \<in> set us. \<exists>v. c (Name u) = Some v \<and> load_upstream env (Name u) v = Inr u" by auto
qed

lemma resolveUpstreams_simps [simp]:
  "map Name (resolveUpstreams us f) = map Name us"
  "map (\<lambda>u. (Name u, target u, MaxActiveConns u, MaxQueuedConns u)) (resolveUpstreams us f) =
   map (\<lambda>u. (Name u, target u, MaxActiveConns u, MaxQueuedConns u)) us"
  by (simp_all add: resolveUpstreams_def comp_def)

lemma set_resolveUpstreams:
  "u \<in> set (resolveUpstreams us f) \<Longrightarrow> \<exists>v \<in> set us. Name v = Name u \<and> target v = target u \<and>
     MaxActiveConns v = MaxActiveConns u \<and> MaxQueuedConns v = MaxQueuedConns u"
  by (auto simp: resolveUpstreams_def)

section \<open>The queues of a reload\<close>

text \<open>
  Every upstream of the new configuration has a queue with its limits: the one it had, with its
  holders and its line, or a fresh one. All other queues stay as they are.
\<close>

definition queues_of :: "(string \<rightharpoonup> qid) \<Rightarrow> qworld list \<Rightarrow> (string \<rightharpoonup> qid) \<Rightarrow> qworld list \<Rightarrow> upstreamConfig \<Rightarrow> bool" where
  "queues_of old h queues h' u =
     (case old (Name u) of
        Some q \<Rightarrow> queues (Name u) = Some q \<and> q < length h' \<and> h' ! q = SetMax (MaxActiveConns u) (MaxQueuedConns u) (h ! q)
      | None \<Rightarrow> (\<exists>q. queues (Name u) = Some q \<and> length h \<le> q \<and> q < length h' \<and>
                   h' ! q = New (MaxActiveConns u) (MaxQueuedConns u)))"

lemma update_queues_frame:
  assumes "update_queues old us queues h = (qs, h')" "\<forall>n q. old n = Some q \<longrightarrow> q < length h"
  shows "length h \<le> length h' \<and> (\<forall>n. n \<notin> Name ` set us \<longrightarrow> qs n = queues n) \<and>
    (\<forall>i < length h. (\<forall>u \<in> set us. old (Name u) \<noteq> Some i) \<longrightarrow> h' ! i = h ! i)"
  using assms
proof (induction us arbitrary: queues h)
  case Nil
  then show ?case by simp
next
  case (Cons u us)
  show ?case
  proof (cases "old (Name u)")
    case None
    let ?h = "h @ [New (MaxActiveConns u) (MaxQueuedConns u)]"
    from Cons.prems None have "update_queues old us (queues(Name u \<mapsto> length h)) ?h = (qs, h')" by simp
    from Cons.IH [OF this] Cons.prems(2) have
      "length ?h \<le> length h' \<and> (\<forall>n. n \<notin> Name ` set us \<longrightarrow> qs n = (queues(Name u \<mapsto> length h)) n) \<and>
       (\<forall>i < length ?h. (\<forall>u \<in> set us. old (Name u) \<noteq> Some i) \<longrightarrow> h' ! i = ?h ! i)" by (simp add: less_SucI)
    then show ?thesis by (auto simp: nth_append)
  next
    case (Some q)
    let ?h = "h[q := SetMax (MaxActiveConns u) (MaxQueuedConns u) (h ! q)]"
    from Cons.prems Some have "update_queues old us (queues(Name u \<mapsto> q)) ?h = (qs, h')" by simp
    from Cons.IH [OF this] Cons.prems(2) have
      "length ?h \<le> length h' \<and> (\<forall>n. n \<notin> Name ` set us \<longrightarrow> qs n = (queues(Name u \<mapsto> q)) n) \<and>
       (\<forall>i < length ?h. (\<forall>u \<in> set us. old (Name u) \<noteq> Some i) \<longrightarrow> h' ! i = ?h ! i)" by simp
    with Some show ?thesis by auto
  qed
qed

lemma update_queues_entries:
  assumes "update_queues old us queues h = (qs, h')" "distinct (map Name us)"
    "\<forall>n q. old n = Some q \<longrightarrow> q < length h" "inj_on old (dom old)"
  shows "\<forall>u \<in> set us. queues_of old h qs h' u"
  using assms
proof (induction us arbitrary: queues h)
  case Nil
  then show ?case by simp
next
  case (Cons u us)
  have fresh: "Name u \<notin> Name ` set us" using Cons.prems(2) by simp
  have other: "old (Name v) \<noteq> Some q" if "old (Name u) = Some q" "v \<in> set us" for v q
  proof
    assume "old (Name v) = Some q"
    then have "Name v = Name u" using that(1) Cons.prems(4) by (metis domI inj_onD)
    then show False using fresh that(2) by (metis imageI)
  qed
  show ?case
  proof (cases "old (Name u)")
    case None
    let ?n = "length h" and ?h = "h @ [New (MaxActiveConns u) (MaxQueuedConns u)]"
    from Cons.prems None have up: "update_queues old us (queues(Name u \<mapsto> ?n)) ?h = (qs, h')" by simp
    have bd: "\<forall>n q. old n = Some q \<longrightarrow> q < length ?h" using Cons.prems(3) by (simp add: less_SucI)
    note F = update_queues_frame [OF up bd]
    have IH: "\<forall>u \<in> set us. queues_of old ?h qs h' u" using Cons.IH [OF up _ bd Cons.prems(4)] Cons.prems(2) by simp
    have "queues_of old h qs h' v" if "v \<in> set us" for v
      using IH [rule_format, OF that] Cons.prems(3)
      by (auto simp: queues_of_def nth_append split: option.splits)
    moreover have "\<forall>v \<in> set us. old (Name v) \<noteq> Some ?n" using Cons.prems(3) by (metis less_irrefl)
    then have "h' ! ?n = ?h ! ?n" using F by (metis length_append_singleton lessI)
    moreover have "qs (Name u) = Some ?n" "?n < length h'" using F fresh by simp_all
    ultimately show ?thesis using None by (simp add: queues_of_def)
  next
    case (Some q)
    let ?w = "SetMax (MaxActiveConns u) (MaxQueuedConns u) (h ! q)"
    let ?h = "h[q := ?w]"
    from Cons.prems Some have up: "update_queues old us (queues(Name u \<mapsto> q)) ?h = (qs, h')" by simp
    have bd: "\<forall>n q. old n = Some q \<longrightarrow> q < length ?h" using Cons.prems(3) by simp
    note F = update_queues_frame [OF up bd]
    have IH: "\<forall>u \<in> set us. queues_of old ?h qs h' u" using Cons.IH [OF up _ bd Cons.prems(4)] Cons.prems(2) by simp
    have "queues_of old h qs h' v" if "v \<in> set us" for v
      using IH [rule_format, OF that] other [OF Some that]
      by (auto simp: queues_of_def nth_list_update split: option.splits)
    moreover have "q < length h" using Cons.prems(3) Some by simp
    moreover from this have "qs (Name u) = Some q" "q < length h'" "h' ! q = ?w"
      using F fresh other [OF Some] by simp_all
    ultimately show ?thesis using Some by (simp add: queues_of_def)
  qed
qed

lemma update_queues_inj:
  assumes "update_queues old us queues h = (qs, h')" "distinct (map Name us)"
    "\<forall>n q. old n = Some q \<longrightarrow> q < length h" "inj_on old (dom old)"
    and "u \<in> set us" "v \<in> set us" "old (Name u) = None" "old (Name v) = None" "qs (Name u) = qs (Name v)"
  shows "Name u = Name v"
  using assms
proof (induction us arbitrary: queues h)
  case Nil
  then show ?case by simp
next
  case (Cons w us)
  have fresh: "Name w \<notin> Name ` set us" using Cons.prems(2) by simp
  show ?case
  proof (cases "old (Name w)")
    case None
    let ?n = "length h" and ?h = "h @ [New (MaxActiveConns w) (MaxQueuedConns w)]"
    from Cons.prems None have up: "update_queues old us (queues(Name w \<mapsto> ?n)) ?h = (qs, h')" by simp
    have bd: "\<forall>n q. old n = Some q \<longrightarrow> q < length ?h" using Cons.prems(3) by (simp add: less_SucI)
    have w: "qs (Name w) = Some ?n" using update_queues_frame [OF up bd] fresh by simp
    have "\<forall>x \<in> set us. queues_of old ?h qs h' x"
      using update_queues_entries [OF up _ bd Cons.prems(4)] Cons.prems(2) by simp
    then have later: "x \<in> set us \<Longrightarrow> old (Name x) = None \<Longrightarrow> qs (Name x) \<noteq> Some ?n" for x
      by (auto simp: queues_of_def)
    show ?thesis
      using Cons.IH [OF up _ bd Cons.prems(4)] Cons.prems(2,5-9) w later by (metis distinct.simps(2) list.map(2) set_ConsD)
  next
    case (Some q)
    let ?h = "h[q := SetMax (MaxActiveConns w) (MaxQueuedConns w) (h ! q)]"
    from Cons.prems Some have up: "update_queues old us (queues(Name w \<mapsto> q)) ?h = (qs, h')" by simp
    have bd: "\<forall>n q. old n = Some q \<longrightarrow> q < length ?h" using Cons.prems(3) by simp
    have "u \<in> set us" "v \<in> set us" using Cons.prems(5-8) Some by auto
    then show ?thesis using Cons.IH [OF up _ bd Cons.prems(4)] Cons.prems(2,7-9) by simp
  qed
qed

lemma update_queues_wf:
  assumes "update_queues old us queues h = (qs, h')" "\<forall>w \<in> set h. queue_inv w" "\<forall>n q. old n = Some q \<longrightarrow> q < length h"
  shows "\<forall>w \<in> set h'. queue_inv w"
  using assms
proof (induction us arbitrary: queues h)
  case Nil
  then show ?case by simp
next
  case (Cons u us)
  show ?case
  proof (cases "old (Name u)")
    case None
    with Cons.prems have "update_queues old us (queues(Name u \<mapsto> length h)) (h @ [New (MaxActiveConns u) (MaxQueuedConns u)]) = (qs, h')"
      by simp
    from Cons.IH [OF this] Cons.prems(2,3) show ?thesis by (auto simp: New_inv less_SucI)
  next
    case (Some q)
    let ?h = "h[q := SetMax (MaxActiveConns u) (MaxQueuedConns u) (h ! q)]"
    have "queue_inv (h ! q)" using Cons.prems(2,3) Some by simp
    then have "\<forall>w \<in> set ?h. queue_inv w"
      using set_update_subset_insert [of h q "SetMax (MaxActiveConns u) (MaxQueuedConns u) (h ! q)"] Cons.prems(2)
      by (auto simp: SetMax_inv)
    moreover from Cons.prems Some have "update_queues old us (queues(Name u \<mapsto> q)) ?h = (qs, h')" by simp
    ultimately show ?thesis using Cons.IH Cons.prems(3) by simp
  qed
qed

section \<open>The invariant of the routing state\<close>

text \<open>
  The upstreams have different names, their targets carry their names, \<open>modules\<close> is built from
  them, and each has a queue of its own; every queue is well-formed.
\<close>

definition routes_ok :: "Server \<Rightarrow> bool" where
  "routes_ok s \<longleftrightarrow>
     distinct (map Name (supstreams s)) \<and> (\<forall>u \<in> set (supstreams s). Upstream (target u) = Name u) \<and>
     smodules s = buildModuleTargets (supstreams s) \<and> dom (upstreamQueues s) = Name ` set (supstreams s)"

definition queues_ok :: "Server \<Rightarrow> bool" where
  "queues_ok s \<longleftrightarrow>
     inj_on (upstreamQueues s) (dom (upstreamQueues s)) \<and>
     (\<forall>n q. upstreamQueues s n = Some q \<longrightarrow> q < length (qheap s)) \<and> (\<forall>w \<in> set (qheap s). queue_inv w)"

text \<open>Each queue has the limits of the configuration in force.\<close>

definition limits_ok :: "Server \<Rightarrow> bool" where
  "limits_ok s \<longleftrightarrow> (\<forall>u \<in> set (supstreams s). case upstreamQueues s (Name u) of None \<Rightarrow> False
     | Some q \<Rightarrow> GetMax (qheap s ! q) = MaxActiveConns u \<and> GetMaxQueued (qheap s ! q) = MaxQueuedConns u)"

lemma core_fields:
  "core s = core s' \<Longrightarrow> supstreams s = supstreams s' \<and> smodules s = smodules s' \<and> upstreamQueues s = upstreamQueues s' \<and>
     qheap s = qheap s' \<and> Motd s = Motd s' \<and> tlsCertificate s = tlsCertificate s' \<and> connInfo s = connInfo s'"
  by (auto simp: core_def dest!: arg_cong [of _ _ "\<lambda>s. (supstreams s, smodules s, upstreamQueues s, qheap s, Motd s, tlsCertificate s, connInfo s)"])

lemma routes_core: "core s = core s' \<Longrightarrow> routes_ok s = routes_ok s'"
  "core s = core s' \<Longrightarrow> queues_ok s = queues_ok s'" "core s = core s' \<Longrightarrow> limits_ok s = limits_ok s'"
  by (simp_all add: routes_ok_def queues_ok_def limits_ok_def core_fields [of s s'] cong: option.case_cong)

lemma NewServer_ok: "routes_ok NewServer" "queues_ok NewServer" "limits_ok NewServer"
  by (simp_all add: routes_ok_def queues_ok_def limits_ok_def NewServer_def Let_def buildModuleTargets_def)

lemma install_ok:
  assumes q: "queues_ok s" and d: "distinct (map Name us)" and t: "\<forall>u \<in> set us. Upstream (target u) = Name u"
  shows "routes_ok (install p us cert s)" "queues_ok (install p us cert s)" "limits_ok (install p us cert s)"
proof -
  obtain qs h' where up: "updateUpstreamQueuesLocked us s = (qs, h')" by (metis surj_pair)
  then have up': "update_queues (upstreamQueues s) us Map.empty (qheap s) = (qs, h')"
    by (simp add: updateUpstreamQueuesLocked_def)
  have old: "\<forall>n q. upstreamQueues s n = Some q \<longrightarrow> q < length (qheap s)" "inj_on (upstreamQueues s) (dom (upstreamQueues s))"
    using q by (simp_all add: queues_ok_def)
  note frame = update_queues_frame [OF up' old(1)]
  note ent = update_queues_entries [OF up' d old]
  have domq: "dom qs = Name ` set us"
    using frame ent by (auto simp: queues_of_def split: option.splits)
  then show "routes_ok (install p us cert s)"
    using d t up by (simp add: routes_ok_def install_def)
  have bound: "q < length h'" if "qs n = Some q" for n q
  proof -
    from that domq obtain u where "u \<in> set us" "n = Name u" by (metis domI imageE)
    with ent that show ?thesis by (auto simp: queues_of_def split: option.splits)
  qed
  have "inj_on qs (dom qs)"
  proof (rule inj_onI)
    fix m n assume "m \<in> dom qs" "n \<in> dom qs" and eq: "qs m = qs n"
    with domq obtain u v where u: "u \<in> set us" "m = Name u" and v: "v \<in> set us" "n = Name v" by (metis imageE)
    note eu = ent [rule_format, OF u(1), unfolded queues_of_def] and ev = ent [rule_format, OF v(1), unfolded queues_of_def]
    show "m = n"
    proof (cases "upstreamQueues s m")
      case None
      show ?thesis
      proof (cases "upstreamQueues s n")
        case n: None
        with None u v eq update_queues_inj [OF up' d old u(1) v(1)] show ?thesis by simp
      next
        case (Some q)
        with eu ev None eq u v old(1) show ?thesis by fastforce
      qed
    next
      case (Some q)
      show ?thesis
      proof (cases "upstreamQueues s n")
        case None
        with eu ev Some eq u v old(1) show ?thesis by fastforce
      next
        case (Some q')
        with eu ev \<open>upstreamQueues s m = Some q\<close> eq u v have "upstreamQueues s m = upstreamQueues s n" by simp
        with old(2) Some show ?thesis by (metis domI inj_onD)
      qed
    qed
  qed
  then show "queues_ok (install p us cert s)"
    using update_queues_wf [OF up' _ old(1)] q bound up by (simp add: queues_ok_def install_def)
  have "case qs (Name u) of None \<Rightarrow> False | Some q \<Rightarrow> GetMax (h' ! q) = MaxActiveConns u \<and> GetMaxQueued (h' ! q) = MaxQueuedConns u"
    if "u \<in> set us" for u
    using ent [rule_format, OF that]
    by (auto simp: queues_of_def GetMax_def GetMaxQueued_def SetMax_def New_def split: option.splits)
  then show "limits_ok (install p us cert s)" using up by (simp add: limits_ok_def install_def cong: option.case_cong)
qed

section \<open>What a successful load leaves\<close>

lemma loaded_upstreams:
  assumes "loadConfig env c ol s = Some (None, s')"
  obtains us found cert s1 where "core s1 = core s" "s' = install (Proxy c) (resolveUpstreams us found) cert s1"
    "map Name us = sort (map fst (Upstreams c))"
    "\<And>u. u \<in> set us \<Longrightarrow> \<exists>v. map_of (Upstreams c) (Name u) = Some v \<and> load_upstream env (Name u) v = Inr u"
    "cert = None \<longleftrightarrow> ListenTLS (Proxy c) = []"
  using assms
proof (cases rule: loadConfig_cases)
  case (loaded us found cert s1)
  have "\<And>n. n \<in> set (sort (map fst (Upstreams c))) \<Longrightarrow> map_of (Upstreams c) n \<noteq> None"
    by (simp add: map_of_eq_None_iff)
  from load_upstreams_Inr [OF loaded(3) this] loaded that show ?thesis by blast
qed simp

lemma loaded_ok:
  assumes "loadConfig env c ol s = Some (None, s')" "queues_ok s" "wf_map (Upstreams c)"
  shows "queues_ok s'" "routes_ok s'" "limits_ok s'" "map Name (supstreams s') = sort (map fst (Upstreams c))"
proof -
  obtain us found cert s1 where l: "core s1 = core s" "s' = install (Proxy c) (resolveUpstreams us found) cert s1"
    "map Name us = sort (map fst (Upstreams c))"
    "\<And>u. u \<in> set us \<Longrightarrow> \<exists>v. map_of (Upstreams c) (Name u) = Some v \<and> load_upstream env (Name u) v = Inr u"
    by (rule loaded_upstreams [OF assms(1)]) blast
  let ?us = "resolveUpstreams us found"
  have q: "queues_ok s1" using routes_core(2) [OF l(1)] assms(2) by simp
  have d: "distinct (map Name ?us)" using l(3) assms(3) by simp
  have t: "Upstream (target u) = Name u" if u: "u \<in> set ?us" for u
  proof -
    obtain v where v: "v \<in> set us" "Name v = Name u" "target v = target u"
      using set_resolveUpstreams [OF u] by blast
    obtain w where "load_upstream env (Name v) w = Inr v" using l(4) [OF v(1)] by blast
    from load_upstream_Inr [OF this] v show ?thesis by simp
  qed
  show "queues_ok s'" "routes_ok s'" "limits_ok s'" using install_ok [OF q d] t l(2) by simp_all
  have "supstreams s' = ?us" using l(2) by (simp add: install_def split: prod.splits)
  then show "map Name (supstreams s') = sort (map fst (Upstreams c))" using l(3) by simp
qed

lemma loaded_queues:
  assumes "loadConfig env c ol s = Some (None, s')" "queues_ok s" "wf_map (Upstreams c)"
  shows "map_of (Upstreams c) n = Some v \<Longrightarrow> (case upstreamQueues s n of
        Some q \<Rightarrow> upstreamQueues s' n = Some q \<and> qheap s' ! q = SetMax (uMaxActiveConns v) (uMaxQueuedConns v) (qheap s ! q)
      | None \<Rightarrow> (\<exists>q. upstreamQueues s' n = Some q \<and> length (qheap s) \<le> q \<and> qheap s' ! q = New (uMaxActiveConns v) (uMaxQueuedConns v)))"
    and "map_of (Upstreams c) n = None \<Longrightarrow> upstreamQueues s' n = None"
    and "length (qheap s) \<le> length (qheap s')"
    and "\<And>i. i < length (qheap s) \<Longrightarrow> (\<And>n. map_of (Upstreams c) n \<noteq> None \<Longrightarrow> upstreamQueues s n \<noteq> Some i) \<Longrightarrow> qheap s' ! i = qheap s ! i"
proof -
  obtain us found cert s1 where l: "core s1 = core s" "s' = install (Proxy c) (resolveUpstreams us found) cert s1"
    "map Name us = sort (map fst (Upstreams c))"
    "\<And>u. u \<in> set us \<Longrightarrow> \<exists>v. map_of (Upstreams c) (Name u) = Some v \<and> load_upstream env (Name u) v = Inr u"
    by (rule loaded_upstreams [OF assms(1)]) blast
  let ?us = "resolveUpstreams us found"
  obtain qs h' where up: "update_queues (upstreamQueues s) ?us Map.empty (qheap s) = (qs, h')" by (metis surj_pair)
  then have s': "upstreamQueues s' = qs" "qheap s' = h'"
    using l(2) core_fields [OF l(1)] by (simp_all add: install_def updateUpstreamQueuesLocked_def)
  have old: "\<forall>n q. upstreamQueues s n = Some q \<longrightarrow> q < length (qheap s)" "inj_on (upstreamQueues s) (dom (upstreamQueues s))"
    using assms(2) by (simp_all add: queues_ok_def)
  have names: "Name ` set ?us = fst ` set (Upstreams c)"
    using arg_cong [OF l(3), of set] by (simp flip: set_map)
  note frame = update_queues_frame [OF up old(1)]
  show "map_of (Upstreams c) n = None \<Longrightarrow> upstreamQueues s' n = None"
    using frame names s' by (simp add: map_of_eq_None_iff)
  show "length (qheap s) \<le> length (qheap s')" using frame s' by simp
  show "qheap s' ! i = qheap s ! i"
    if "i < length (qheap s)" "\<And>n. map_of (Upstreams c) n \<noteq> None \<Longrightarrow> upstreamQueues s n \<noteq> Some i" for i
  proof -
    have "\<forall>u \<in> set ?us. upstreamQueues s (Name u) \<noteq> Some i"
      using that(2) names by (metis imageI map_of_eq_None_iff)
    then show ?thesis using frame that(1) s' by simp
  qed
  assume v: "map_of (Upstreams c) n = Some v"
  then have "n \<in> Name ` set ?us" using names by (metis map_of_eq_None_iff option.distinct(1))
  then obtain u where u: "u \<in> set ?us" "n = Name u" by blast
  obtain w where w: "w \<in> set us" "Name w = n" "MaxActiveConns w = MaxActiveConns u" "MaxQueuedConns w = MaxQueuedConns u"
    using set_resolveUpstreams [OF u(1)] u(2) by metis
  have "load_upstream env (Name w) v = Inr w" using l(4) [OF w(1)] v w(2) by simp
  from load_upstream_Inr [OF this] w(3,4) have lim: "MaxActiveConns u = uMaxActiveConns v" "MaxQueuedConns u = uMaxQueuedConns v"
    by simp_all
  have "distinct (map Name ?us)" using l(3) assms(3) by simp
  then have "queues_of (upstreamQueues s) (qheap s) qs h' u" using update_queues_entries [OF up _ old] u(1) by blast
  then show "case upstreamQueues s n of
        Some q \<Rightarrow> upstreamQueues s' n = Some q \<and> qheap s' ! q = SetMax (uMaxActiveConns v) (uMaxQueuedConns v) (qheap s ! q)
      | None \<Rightarrow> (\<exists>q. upstreamQueues s' n = Some q \<and> length (qheap s) \<le> q \<and> qheap s' ! q = New (uMaxActiveConns v) (uMaxQueuedConns v))"
    using u(2) lim s' by (auto simp: queues_of_def split: option.splits)
qed

lemma update_queues_heap:
  assumes "update_queues old us queues h = (qs, h')" "\<forall>n q. old n = Some q \<longrightarrow> q < length h"
  shows "length h \<le> length h' \<and> (\<forall>i < length h'. if i < length h then h' ! i = h ! i \<or> (\<exists>m k. h' ! i = SetMax m k (h ! i))
     else \<exists>m k. h' ! i = New m k)"
  using assms
proof (induction us arbitrary: queues h)
  case Nil
  then show ?case by simp
next
  case (Cons u us)
  show ?case
  proof (cases "old (Name u)")
    case None
    let ?w = "New (MaxActiveConns u) (MaxQueuedConns u)"
    from Cons.prems None have "update_queues old us (queues(Name u \<mapsto> length h)) (h @ [?w]) = (qs, h')" by simp
    from Cons.IH [OF this] Cons.prems(2) have
      L: "length (h @ [?w]) \<le> length h'" and
      I: "\<And>i. i < length h' \<Longrightarrow> if i < length (h @ [?w]) then h' ! i = (h @ [?w]) ! i \<or> (\<exists>m k. h' ! i = SetMax m k ((h @ [?w]) ! i))
         else \<exists>m k. h' ! i = New m k" by (auto simp: less_SucI)
    have new: "SetMax m k ?w = New m k" for m k by (simp add: SetMax_def New_def)
    have "if i < length h then h' ! i = h ! i \<or> (\<exists>m k. h' ! i = SetMax m k (h ! i)) else \<exists>m k. h' ! i = New m k"
      if "i < length h'" for i
      using I [OF that] new by (cases "i = length h") (auto simp: nth_append split: if_splits)
    with L show ?thesis by simp
  next
    case (Some q)
    let ?h = "h[q := SetMax (MaxActiveConns u) (MaxQueuedConns u) (h ! q)]"
    from Cons.prems Some have "update_queues old us (queues(Name u \<mapsto> q)) ?h = (qs, h')" by simp
    from Cons.IH [OF this] Cons.prems(2) have
      L: "length ?h \<le> length h'" and
      I: "\<And>i. i < length h' \<Longrightarrow> if i < length ?h then h' ! i = ?h ! i \<or> (\<exists>m k. h' ! i = SetMax m k (?h ! i))
         else \<exists>m k. h' ! i = New m k" by auto
    have two: "SetMax m k (SetMax m' k' w) = SetMax m k w" for m k m' k' w by (simp add: SetMax_def)
    have "if i < length h then h' ! i = h ! i \<or> (\<exists>m k. h' ! i = SetMax m k (h ! i)) else \<exists>m k. h' ! i = New m k"
      if "i < length h'" for i
      using I [OF that] two by (cases "i = q") (auto split: if_splits)
    with L show ?thesis by simp
  qed
qed

text \<open>Every queue there was is as before, or has new limits; every other one is fresh.\<close>

lemma loadConfig_heap:
  assumes "loadConfig env c ol s = Some (r, s')" "queues_ok s"
  shows "length (qheap s) \<le> length (qheap s')"
    "i < length (qheap s) \<Longrightarrow> qheap s' ! i = qheap s ! i \<or> (\<exists>m k. qheap s' ! i = SetMax m k (qheap s ! i))"
    "i < length (qheap s') \<Longrightarrow> \<not> i < length (qheap s) \<Longrightarrow> \<exists>m k. qheap s' ! i = New m k"
proof -
  have "length (qheap s) \<le> length (qheap s') \<and> (\<forall>i < length (qheap s'). if i < length (qheap s)
     then qheap s' ! i = qheap s ! i \<or> (\<exists>m k. qheap s' ! i = SetMax m k (qheap s ! i)) else \<exists>m k. qheap s' ! i = New m k)"
    using assms(1)
  proof (cases rule: loadConfig_cases)
    case (failed e)
    then show ?thesis using core_fields [OF failed(2)] by simp
  next
    case (loaded us found cert s1)
    have c: "upstreamQueues s1 = upstreamQueues s" "qheap s1 = qheap s" using core_fields [OF loaded(4)] by simp_all
    obtain qs h' where up: "update_queues (upstreamQueues s) (resolveUpstreams us found) Map.empty (qheap s) = (qs, h')"
      by (metis surj_pair)
    then have h': "qheap s' = h'" using loaded(5) by (simp add: install_def updateUpstreamQueuesLocked_def c)
    have "\<forall>n q. upstreamQueues s n = Some q \<longrightarrow> q < length (qheap s)" using assms(2) by (simp add: queues_ok_def)
    then show ?thesis unfolding h' by (rule update_queues_heap [OF up])
  qed
  note H = this [THEN conjunct1] this [THEN conjunct2, rule_format, of i]
  show "length (qheap s) \<le> length (qheap s')" by (rule H(1))
  show "i < length (qheap s) \<Longrightarrow> qheap s' ! i = qheap s ! i \<or> (\<exists>m k. qheap s' ! i = SetMax m k (qheap s ! i))"
    using H by simp
  show "i < length (qheap s') \<Longrightarrow> \<not> i < length (qheap s) \<Longrightarrow> \<exists>m k. qheap s' ! i = New m k"
    using H(2) by simp
qed

end
