(* ===== verification/ServerProps.thy ===== *)
theory ServerProps
  imports ServerInv
begin

text \<open>Properties of loading and reloading the configuration.\<close>

section \<open>A configuration to try things on\<close>

definition demo_env :: loadenv where
  "demo_env = \<lparr>LoadX509KeyPair = (\<lambda>c k. Inr (c @ k)), ResolveUnix = (\<lambda>a. None),
     ResolveTCP = (\<lambda>a. if CHR '':'' \<in> set a then None else Some (IOError ''missing port in address'')),
     osys = \<lparr>MkdirAll = (\<lambda>f. None), OpenFile = (\<lambda>f. None)\<rparr>, dials = (\<lambda>i n a. Inl (IOError ''connection refused'')),
     QuoteErr = (\<lambda>s. s)\<rparr>"

definition demo_up :: "string \<Rightarrow> string list \<Rightarrow> int \<Rightarrow> UpstreamSettings" where
  "demo_up a ms mx = \<lparr>Address = a, uModules = ms, uDiscoverModules = False, uUseProxyProtocol = False,
     uMaxActiveConns = mx, uMaxQueuedConns = 0\<rparr>"

definition demo_proxy :: ProxySettings where
  "demo_proxy = \<lparr>Listen = ''0.0.0.0:873'', ListenTLS = [], ListenHTTP = ''/run/rsync-proxy.sock'', pMotd = ''hello'',
     AccessLog = ''/var/log/access.log'', ErrorLog = [], TLSCertFile = [], TLSKeyFile = []\<rparr>"

definition demo_conf :: Config where
  "demo_conf = \<lparr>Proxy = demo_proxy,
     Upstreams = [(''u2'', demo_up ''10.0.0.2:873'' [''bar'', ''foo''] 60), (''u1'', demo_up ''10.0.0.1:873'' [''foo''] 30)]\<rparr>"

definition demo_conf' :: Config where
  "demo_conf' = \<lparr>Proxy = demo_proxy, Upstreams = [(''u2'', demo_up ''10.0.0.2:873'' [''bar''] 10)]\<rparr>"

definition bad_conf :: Config where
  "bad_conf = \<lparr>Proxy = demo_proxy, Upstreams = [(''u9'', demo_up ''10.0.0.9'' [''bar''] 10)]\<rparr>"

definition loaded :: "Config \<Rightarrow> Server \<Rightarrow> Server" where
  "loaded c s = snd (the (loadConfig demo_env c True s))"

lemma loadedI: "fst (the (loadConfig demo_env c True s)) = r \<Longrightarrow> loadConfig demo_env c True s = Some (r, loaded c s)"
  using loadConfig_Some [of demo_env c True s] by (cases "loadConfig demo_env c True s") (auto simp: loaded_def)

definition demo_server :: Server where "demo_server = loaded demo_conf NewServer"
definition demo_server' :: Server where "demo_server' = loaded demo_conf' demo_server"

lemma demo_loads:
  "loadConfig demo_env demo_conf True NewServer = Some (None, demo_server)"
  "loadConfig demo_env demo_conf' True demo_server = Some (None, demo_server')"
  "loadConfig demo_env demo_conf True demo_server' = Some (None, loaded demo_conf demo_server')"
  unfolding demo_server_def demo_server'_def by (rule loadedI, code_simp)+

section \<open>All or nothing\<close>

text \<open>
  C20. Loading a configuration always comes to an end, and when it fails the server goes on as
  before: modules, upstreams, queues and their limits, message of the day, certificate, counters
  and connections are untouched. (Only log files, and listen addresses not set before, may have
  changed; \<open>core\<close> leaves these out.)
\<close>

theorem failed_load_changes_nothing:
  "\<exists>r s'. loadConfig env c openLog s = Some (r, s') \<and> (case r of None \<Rightarrow> True | Some e \<Rightarrow> core s' = core s)"
proof -
  obtain r s' where l: "loadConfig env c openLog s = Some (r, s')" using loadConfig_Some [of env c openLog s] by auto
  have "case r of None \<Rightarrow> True | Some e \<Rightarrow> core s' = core s"
    using l by (cases rule: loadConfig_cases) auto
  with l show ?thesis by blast
qed



lemma demo_wf: "wf_map (Upstreams demo_conf)" "wf_map (Upstreams demo_conf')"
  by code_simp+

lemmas demo_ok = loaded_ok [OF demo_loads(1) NewServer_ok(2) demo_wf(1)]
lemmas demo_ok' = loaded_ok [OF demo_loads(2) demo_ok(1) demo_wf(2)]

section \<open>Clients across reloads\<close>

text \<open>
  C17. A reload keeps the clients of every upstream that stays configured: the upstream keeps its
  queue, with its holders, its line, its channels and its handles; only the limits are new.
\<close>

theorem reload_keeps_clients:
  assumes "loadConfig env c openLog s = Some (None, s')" and "queues_ok s" and "wf_map (Upstreams c)"
    and "upstreamQueues s n = Some q" and "map_of (Upstreams c) n = Some v"
  shows "upstreamQueues s' n = Some q \<and> ActiveLen (qheap s' ! q) = ActiveLen (qheap s ! q) \<and>
    QueuedLen (qheap s' ! q) = QueuedLen (qheap s ! q) \<and> chans (qheap s' ! q) = chans (qheap s ! q) \<and>
    handles (qheap s' ! q) = handles (qheap s ! q) \<and> active (que (qheap s' ! q)) = active (que (qheap s ! q)) \<and>
    queued (que (qheap s' ! q)) = queued (que (qheap s ! q)) \<and>
    GetMax (qheap s' ! q) = uMaxActiveConns v \<and> GetMaxQueued (qheap s' ! q) = uMaxQueuedConns v"
  using loaded_queues(1) [OF assms(1-3,5)] assms(4)
  by (simp add: SetMax_def ActiveLen_def QueuedLen_def GetMax_def GetMaxQueued_def)

theorem reload_keeps_clients_witness:
  "upstreamQueues demo_server' ''u2'' = Some 1 \<and> GetMax (qheap demo_server ! 1) = 60 \<and> GetMax (qheap demo_server' ! 1) = 10"
proof -
  have q: "upstreamQueues demo_server ''u2'' = Some 1" "GetMax (qheap demo_server ! 1) = 60"
    unfolding demo_server_def loaded_def by code_simp+
  have v: "map_of (Upstreams demo_conf') ''u2'' = Some (demo_up ''10.0.0.2:873'' [''bar''] 10)" by (simp add: demo_conf'_def)
  from reload_keeps_clients [OF demo_loads(2) demo_ok(1) demo_wf(2) q(1) v] q(2) show ?thesis by (simp add: demo_up_def)
qed

text \<open>
  C38. An upstream that one reload removes and a later one adds again starts with an empty queue,
  while the clients it had before stay on the old one: they do not count against its limit.
\<close>

theorem readded_upstream_forgets_clients:
  assumes "loadConfig env c1 openLog s = Some (None, s1)" "loadConfig env' c2 openLog' s1 = Some (None, s2)"
    and "queues_ok s" "wf_map (Upstreams c1)" "wf_map (Upstreams c2)"
    and "upstreamQueues s n = Some q" "map_of (Upstreams c1) n = None" "map_of (Upstreams c2) n = Some v"
  shows "\<exists>q'. upstreamQueues s2 n = Some q' \<and> ActiveLen (qheap s2 ! q') = 0 \<and> qheap s2 ! q = qheap s ! q"
proof -
  note L1 = loaded_queues [OF assms(1,3,4)]
  have ok1: "queues_ok s1" by (rule loaded_ok(1) [OF assms(1,3,4)])
  note L2 = loaded_queues [OF assms(2) ok1 assms(5)]
  have none: "upstreamQueues s1 n = None" by (rule L1(2) [OF assms(7)])
  have len: "q < length (qheap s)" using assms(3,6) by (simp add: queues_ok_def)
  have old: "upstreamQueues s m = Some q \<Longrightarrow> m = n" for m
    using assms(3,6) by (metis domI inj_onD queues_ok_def)
  have q1: "qheap s1 ! q = qheap s ! q" using L1(4) [OF len] old assms(7) by metis
  have "upstreamQueues s1 m \<noteq> Some q" for m
  proof
    assume m: "upstreamQueues s1 m = Some q"
    then obtain w where w: "map_of (Upstreams c1) m = Some w" using L1(2) by fastforce
    from L1(1) [OF w] m len have "upstreamQueues s m = Some q" by (auto split: option.splits)
    with old w assms(7) show False by force
  qed
  then have "qheap s2 ! q = qheap s1 ! q" using L2(4) len L1(3) by (metis order_less_le_trans)
  moreover obtain q' where "upstreamQueues s2 n = Some q'" "qheap s2 ! q' = New (uMaxActiveConns v) (uMaxQueuedConns v)"
    using L2(1) [OF assms(8)] none by auto
  ultimately show ?thesis using q1 by (simp add: ActiveLen_def New_def)
qed

theorem readded_upstream_forgets_clients_witness:
  "\<exists>q'. upstreamQueues (loaded demo_conf demo_server') ''u1'' = Some q' \<and>
     ActiveLen (qheap (loaded demo_conf demo_server') ! q') = 0 \<and> qheap (loaded demo_conf demo_server') ! 0 = qheap demo_server ! 0"
proof -
  have q: "upstreamQueues demo_server ''u1'' = Some 0" unfolding demo_server_def loaded_def by code_simp
  have v: "map_of (Upstreams demo_conf') ''u1'' = None"
    "map_of (Upstreams demo_conf) ''u1'' = Some (demo_up ''10.0.0.1:873'' [''foo''] 30)" by (simp_all add: demo_conf_def demo_conf'_def)
  show ?thesis by (rule readded_upstream_forgets_clients [OF demo_loads(2,3) demo_ok(1) demo_wf(2,1) q v])
qed

section \<open>Lookups\<close>

text \<open>
  C22. In one snapshot of the routing state, every module that is known has a target for every
  client, of an upstream that provides the module, and that upstream has a queue: neither does
  the index of the choice panic nor can the queue be missing.
\<close>

theorem known_module_is_served:
  assumes "routes_ok s" and "getTargetsForModule s m = Some ts" and "length ts < 2 ^ 32"
  shows "chooseTargetByClientIP p (length ts) < length ts \<and>
    (\<exists>u \<in> set (supstreams s). m \<in> set (Modules u) \<and> ts ! chooseTargetByClientIP p (length ts) = target u \<and>
       getQueueForUpstream s (Upstream (target u)) \<noteq> None)"
proof -
  have ts: "ts = targets_of (supstreams s) m" "ts \<noteq> []"
    using assms(1,2) by (auto simp: routes_ok_def getTargetsForModule_def buildModuleTargets_lookup split: if_splits)
  then have less: "chooseTargetByClientIP p (length ts) < length ts" using choose_less assms(3) by simp
  then have "ts ! chooseTargetByClientIP p (length ts) \<in> set (targets_of (supstreams s) m)" using ts(1) by simp
  then obtain u where u: "u \<in> set (supstreams s)" "m \<in> set (Modules u)" "ts ! chooseTargetByClientIP p (length ts) = target u"
    by (auto simp: set_targets_of)
  then have "upstreamQueues s (Upstream (target u)) \<noteq> None"
    using assms(1) by (auto simp: routes_ok_def)
  with less u show ?thesis by (auto simp: getQueueForUpstream_def)
qed

theorem known_module_is_served_witness:
  "\<exists>u \<in> set (supstreams demo_server). ''foo'' \<in> set (Modules u) \<and>
     [\<lparr>Upstream = ''u1'', Addr = ''10.0.0.1:873'', UseProxyProtocol = False\<rparr>,
      \<lparr>Upstream = ''u2'', Addr = ''10.0.0.2:873'', UseProxyProtocol = False\<rparr>] ! chooseTargetByClientIP [192, 0, 2, 1] 2 = target u \<and>
     getQueueForUpstream demo_server (Upstream (target u)) \<noteq> None"
proof -
  let ?ts = "[\<lparr>Upstream = ''u1'', Addr = ''10.0.0.1:873'', UseProxyProtocol = False\<rparr>,
      \<lparr>Upstream = ''u2'', Addr = ''10.0.0.2:873'', UseProxyProtocol = False\<rparr>]"
  have g: "getTargetsForModule demo_server ''foo'' = Some ?ts"
    unfolding demo_server_def loaded_def by code_simp
  have l: "length ?ts = 2" by simp
  show ?thesis using known_module_is_served [OF demo_ok(2) g, of "[192, 0, 2, 1]"] unfolding l by simp
qed

text \<open>
  C23. What \<open>/upstream-modules\<close> reports of a configured upstream (without a fresh discovery) is what
  is routed to it: a module is in the list exactly when the upstream is among its targets.
\<close>

theorem reported_modules_are_routed:
  assumes "routes_ok s" and "ListUpstreamModules dial s n False = Some (Inr ms)"
  shows "m \<in> set ms \<longleftrightarrow> (\<exists>ts t. getTargetsForModule s m = Some ts \<and> t \<in> set ts \<and> Upstream t = n)"
proof -
  have f: "find_upstream n us = Some u \<Longrightarrow> u \<in> set us \<and> Name u = n" for us u
    by (induction us) (auto split: if_splits)
  from assms(2) obtain u where fu: "find_upstream n (supstreams s) = Some u" and ms: "ms = sort (Modules u)"
    by (auto simp: ListUpstreamModules_def split: option.splits)
  note u = f [OF fu, THEN conjunct1] f [OF fu, THEN conjunct2] ms
  have same: "v = u" if "v \<in> set (supstreams s)" "Upstream (target v) = n" for v
  proof -
    have "Name v = Name u" using assms(1) that u(2) by (simp add: routes_ok_def)
    moreover have "inj_on Name (set (supstreams s))" using assms(1) by (simp add: routes_ok_def distinct_map)
    ultimately show ?thesis using that(1) u(1) by (metis inj_onD)
  qed
  have "(\<exists>ts t. getTargetsForModule s m = Some ts \<and> t \<in> set ts \<and> Upstream t = n) \<longleftrightarrow>
      (\<exists>t \<in> set (targets_of (supstreams s) m). Upstream t = n)"
    using assms(1) by (auto simp: routes_ok_def getTargetsForModule_def buildModuleTargets_lookup)
  also have "\<dots> \<longleftrightarrow> m \<in> set (Modules u)"
  proof -
    have "t \<in> set (targets_of (supstreams s) m) \<and> Upstream t = n \<Longrightarrow> m \<in> set (Modules u)" for t
      using same by (auto simp: set_targets_of)
    moreover have "m \<in> set (Modules u) \<Longrightarrow> target u \<in> set (targets_of (supstreams s) m)" using u(1) by (auto simp: set_targets_of)
    moreover have "Upstream (target u) = n" using assms(1) u(1,2) by (simp add: routes_ok_def)
    ultimately show ?thesis by blast
  qed
  finally show ?thesis using u(3) by simp
qed

theorem reported_modules_are_routed_witness:
  "''bar'' \<in> set [''bar'', ''foo''] \<and>
   (\<exists>ts t. getTargetsForModule demo_server ''bar'' = Some ts \<and> t \<in> set ts \<and> Upstream t = ''u2'')"
proof -
  have "ListUpstreamModules (\<lambda>n a. Inl EOF) demo_server ''u2'' False = Some (Inr [''bar'', ''foo''])"
    unfolding demo_server_def loaded_def by code_simp
  from reported_modules_are_routed [OF demo_ok(2) this, of "''bar''"] show ?thesis by simp
qed

text \<open>
  The order in which Go iterates over the map of upstreams does not matter: two maps with the
  same entries load to the same server.
\<close>

theorem load_order_irrelevant:
  assumes "mset (Upstreams c) = mset (Upstreams c')" and "Proxy c = Proxy c'" and "wf_map (Upstreams c)"
  shows "loadConfig env c openLog s = loadConfig env c' openLog s"
proof -
  have "map_of (Upstreams c) = map_of (Upstreams c')" by (rule wf_map_perm_map_of [OF assms(3,1)])
  moreover have "sort (map fst (Upstreams c)) = sort (map fst (Upstreams c'))"
    using assms(1) by (metis mset_map mset_sort properties_for_sort sorted_sort)
  moreover have "Upstreams c = [] \<longleftrightarrow> Upstreams c' = []" using assms(1) by (metis mset_zero_iff)
  ultimately show ?thesis using assms(2) by (simp only: loadConfig_def)
qed

theorem load_order_irrelevant_witness:
  "loadConfig demo_env demo_conf True NewServer = loadConfig demo_env (demo_conf\<lparr>Upstreams := rev (Upstreams demo_conf)\<rparr>) True NewServer"
  by (rule load_order_irrelevant) (simp_all add: demo_wf)

section \<open>TLS\<close>

text \<open>
  C33. TLS cannot be switched on or off by a reload: once the server listens, a configuration loads
  only if it has a TLS listener exactly when the server has one; and the server has a certificate
  exactly when the configuration has a TLS listener.
\<close>

theorem reload_keeps_tls:
  assumes "loadConfig env c openLog s = Some (None, s')"
  shows "(serverStarted s \<longrightarrow> (TLSListener s = None \<longleftrightarrow> ListenTLS (Proxy c) = [])) \<and>
    (is_err (getTLSCertificate s') \<longleftrightarrow> ListenTLS (Proxy c) = [])"
proof -
  obtain us found cert s1 where l: "s' = install (Proxy c) (resolveUpstreams us found) cert s1" "cert = None \<longleftrightarrow> ListenTLS (Proxy c) = []"
    by (rule loaded_upstreams [OF assms])
  have "tlsCertificate s' = cert" using l(1) by (simp add: install_def split: prod.splits)
  then have "is_err (getTLSCertificate s') \<longleftrightarrow> ListenTLS (Proxy c) = []"
    using l(2) by (auto simp: getTLSCertificate_def split: option.splits)
  moreover have "serverStarted s \<longrightarrow> (TLSListener s = None \<longleftrightarrow> ListenTLS (Proxy c) = [])"
    using assms by (auto simp: loadConfig_def check_tls_def split: if_splits)
  ultimately show ?thesis by blast
qed

theorem reload_keeps_tls_witness:
  "is_err (getTLSCertificate demo_server) \<and> ListenTLS (Proxy demo_conf) = []"
proof -
  have "ListenTLS (Proxy demo_conf) = []" by (simp add: demo_conf_def demo_proxy_def)
  with reload_keeps_tls [OF demo_loads(1)] show ?thesis by simp
qed

end
