(* ===== verification/Metrics.thy ===== *)
theory Metrics
  imports Server
begin

text \<open>
  \<open>pkg/server/metrics.go\<close>: the text that the \<open>/metrics\<close> page appends, as a function from the
  server to the text and the server (a scrape creates counters that were never touched). The time
  is in nanoseconds; the rendering of a floating-point number of seconds is a parameter.
\<close>

section \<open>Connections\<close>

text \<open>\<open>connInfoSnapshot\<close> and \<open>snapshot\<close>; \<open>ListConnectionInfo\<close> in the order of the indexes.\<close>

record connInfoSnapshot =
  snapIndex :: "32 word"
  snapLocal :: string
  snapRemote :: string
  snapConnectedAt :: int
  snapModule :: string
  snapUpstream :: string
  snapSent :: int
  snapReceived :: int

definition snapshot :: "ConnInfo \<Rightarrow> connInfoSnapshot" where
  "snapshot c = \<lparr>snapIndex = connIdx c, snapLocal = connLocal c, snapRemote = connRemote c, snapConnectedAt = ConnectedAt c,
     snapModule = connModule c, snapUpstream = connUpstream c, snapSent = sint (SentBytes c), snapReceived = sint (ReceivedBytes c)\<rparr>"

definition GetActiveConnectionCount :: "Server \<Rightarrow> int" where
  "GetActiveConnectionCount s = sint (activeConnCount s)"

definition ListConnectionInfo :: "Server \<Rightarrow> ConnInfo list" where
  "ListConnectionInfo s = sort_key connIdx (map snd (connInfo s))"

section \<open>Labels\<close>

definition prometheusEscapeLabelValue :: "string \<Rightarrow> string" where
  "prometheusEscapeLabelValue s =
     (let s1 = replaceByte (CHR 0x5C) [CHR 0x5C, CHR 0x5C] s;
          s2 = replaceByte LF [CHR 0x5C, CHR ''n''] s1
      in replaceByte (CHR 0x22) [CHR 0x5C, CHR 0x22] s2)"

definition quoted :: "string \<Rightarrow> string" where
  "quoted s = CHR 0x22 # prometheusEscapeLabelValue s @ [CHR 0x22]"

definition prometheusLabels :: "32 word \<Rightarrow> string \<Rightarrow> string \<Rightarrow> string" where
  "prometheusLabels index module upstream =
     ''index='' @ CHR 0x22 # show_nat (unat index) @ CHR 0x22 # '',module='' @
     quoted (prometheusLabelValueOrUnknown module) @ '',upstream='' @ quoted (prometheusLabelValueOrUnknown upstream)"

section \<open>The sections of the page\<close>

text \<open>The two comment lines of a metric, and one sample.\<close>

definition metric_header :: "string \<Rightarrow> string \<Rightarrow> string \<Rightarrow> string" where
  "metric_header name help typ =
     ''# HELP '' @ name @ '' '' @ help @ [LF] @ ''# TYPE '' @ name @ '' '' @ typ @ [LF]"

definition sample :: "string \<Rightarrow> string \<Rightarrow> string \<Rightarrow> string" where
  "sample name labels val = name @ ''{'' @ labels @ ''} '' @ val @ [LF]"

definition plain_metric :: "string \<Rightarrow> string \<Rightarrow> string \<Rightarrow> string \<Rightarrow> string" where
  "plain_metric name help typ val = metric_header name help typ @ name @ '' '' @ val @ [LF]"

text \<open>The queues of the upstreams: an upstream without a queue is left out.\<close>

definition queue_samples :: "string \<Rightarrow> (qworld \<Rightarrow> int) \<Rightarrow> Server \<Rightarrow> upstreamConfig list \<Rightarrow> string" where
  "queue_samples name get s us = concat (map (\<lambda>u.
     case upstreamQueues s (Name u) of
       None \<Rightarrow> []
     | Some q \<Rightarrow> sample name (''upstream='' @ quoted (Name u)) (show_int (get (qheap s ! q)))) us)"

definition queue_metrics :: "Server \<Rightarrow> upstreamConfig list \<Rightarrow> string" where
  "queue_metrics s us =
     metric_header ''rsync_proxy_queued_connections'' ''Current queued rsync proxy connections per upstream.'' ''gauge'' @
     queue_samples ''rsync_proxy_queued_connections'' QueuedLen s us @
     metric_header ''rsync_proxy_queue_active_max'' ''Configured max active connections per upstream.'' ''gauge'' @
     queue_samples ''rsync_proxy_queue_active_max'' GetMax s us @
     metric_header ''rsync_proxy_queue_queued_max'' ''Configured max queued connections per upstream.'' ''gauge'' @
     queue_samples ''rsync_proxy_queue_queued_max'' GetMaxQueued s us"

text \<open>The counters per upstream, which this may create.\<close>

fun upstream_samples :: "string \<Rightarrow> (upstreamCounters \<Rightarrow> uint64) \<Rightarrow> upstreamConfig list \<Rightarrow> (string \<times> upstreamCounters) list \<Rightarrow>
    string \<times> (string \<times> upstreamCounters) list" where
  "upstream_samples name get [] m = ([], m)"
| "upstream_samples name get (u # us) m =
     (let (c, m1) = getUpstreamCounters (Name u) m; (t, m2) = upstream_samples name get us m1
      in (sample name (''upstream='' @ quoted (Name u)) (show_nat (unat (get c))) @ t, m2))"

definition upstream_metrics :: "Server \<Rightarrow> upstreamConfig list \<Rightarrow> string \<times> Server" where
  "upstream_metrics s us =
     (let (t1, m1) = upstream_samples ''rsync_proxy_queue_full_rejected_total'' queueFull us (supstreamCounters s);
          (t2, m2) = upstream_samples ''rsync_proxy_upstream_dial_errors_total'' dialError us m1
      in (metric_header ''rsync_proxy_queue_full_rejected_total'' ''Total connections rejected due to queue full per upstream.'' ''counter'' @ t1 @
          metric_header ''rsync_proxy_upstream_dial_errors_total'' ''Total upstream dial failures per upstream.'' ''counter'' @ t2,
          s\<lparr>supstreamCounters := m2\<rparr>))"

definition connection_counts :: "Server \<Rightarrow> string" where
  "connection_counts s =
     plain_metric ''rsync_proxy_unknown_module_requests_total'' ''Total requests for unknown modules.'' ''counter''
       (show_nat (unat (unknownModuleCount s))) @
     plain_metric ''rsync_proxy_active_connections'' ''Current active rsync proxy connections.'' ''gauge''
       (show_int (GetActiveConnectionCount s))"

text \<open>The connections grouped by module and upstream, in the order of these.\<close>

definition connection_key :: "ConnInfo \<Rightarrow> moduleUpstreamKey" where
  "connection_key c = (let sn = snapshot c in Key (prometheusLabelValueOrUnknown (snapModule sn)) (prometheusLabelValueOrUnknown (snapUpstream sn)))"

definition connectionCounts :: "ConnInfo list \<Rightarrow> (moduleUpstreamKey \<times> nat) list" where
  "connectionCounts cs = fold (\<lambda>c m. AList.update (connection_key c) (Suc (case map_of m (connection_key c) of Some n \<Rightarrow> n | None \<Rightarrow> 0)) m) cs []"

definition key_labels :: "moduleUpstreamKey \<Rightarrow> string" where
  "key_labels k = ''module='' @ quoted (keyModule k) @ '',upstream='' @ quoted (keyUpstream k)"

definition group_metrics :: "ConnInfo list \<Rightarrow> string" where
  "group_metrics cs =
     (let counts = connectionCounts cs; keys = sort (map fst counts)
      in metric_header ''rsync_proxy_active_connections_by_module'' ''Current active rsync proxy connections by module and upstream.'' ''gauge'' @
         concat (map (\<lambda>k. sample ''rsync_proxy_active_connections_by_module'' (key_labels k) (show_nat (the (map_of counts k)))) keys))"

text \<open>One sample for each connection.\<close>

definition connection_samples :: "string \<Rightarrow> (connInfoSnapshot \<Rightarrow> string) \<Rightarrow> ConnInfo list \<Rightarrow> string" where
  "connection_samples name get cs = concat (map (\<lambda>c.
     let sn = snapshot c in sample name (prometheusLabels (snapIndex sn) (snapModule sn) (snapUpstream sn)) (get sn)) cs)"

definition duration_ns :: "int \<Rightarrow> connInfoSnapshot \<Rightarrow> int" where
  "duration_ns now sn = (let d = now - snapConnectedAt sn * 1000000000 in if d < 0 then 0 else d)"

definition connection_metrics :: "(int \<Rightarrow> string) \<Rightarrow> int \<Rightarrow> ConnInfo list \<Rightarrow> string" where
  "connection_metrics fmt3 now cs =
     metric_header ''rsync_proxy_connection_sent_bytes'' ''Bytes sent to clients for active connections.'' ''gauge'' @
     connection_samples ''rsync_proxy_connection_sent_bytes'' (\<lambda>sn. show_int (snapSent sn)) cs @
     metric_header ''rsync_proxy_connection_received_bytes'' ''Bytes received from clients for active connections.'' ''gauge'' @
     connection_samples ''rsync_proxy_connection_received_bytes'' (\<lambda>sn. show_int (snapReceived sn)) cs @
     metric_header ''rsync_proxy_connection_connected_timestamp_seconds'' ''Unix timestamp when active connections were established.'' ''gauge'' @
     connection_samples ''rsync_proxy_connection_connected_timestamp_seconds'' (\<lambda>sn. show_int (snapConnectedAt sn)) cs @
     metric_header ''rsync_proxy_connection_duration_seconds'' ''Current duration of active connections.'' ''gauge'' @
     connection_samples ''rsync_proxy_connection_duration_seconds'' (\<lambda>sn. fmt3 (duration_ns now sn)) cs"

definition total_metrics :: "Server \<Rightarrow> string" where
  "total_metrics s =
     plain_metric ''rsync_proxy_accepted_connections_total'' ''Total accepted connections since start.'' ''counter'' (show_nat (unat (acceptedConnCount s))) @
     plain_metric ''rsync_proxy_completed_connections_total'' ''Total completed connections since start.'' ''counter'' (show_nat (unat (completedConnCount s))) @
     plain_metric ''rsync_proxy_sent_bytes_total'' ''Total bytes sent to clients since start.'' ''counter'' (show_nat (unat (sentBytesTotal s))) @
     plain_metric ''rsync_proxy_received_bytes_total'' ''Total bytes received from clients since start.'' ''counter'' (show_nat (unat (recvBytesTotal s)))"

text \<open>The counters per module and upstream, in the order of these.\<close>

definition module_samples :: "string \<Rightarrow> (moduleCounters \<Rightarrow> uint64) \<Rightarrow> (moduleUpstreamKey \<times> moduleCounters) list \<Rightarrow> string" where
  "module_samples name get stats = concat (map (\<lambda>(k, c). sample name (key_labels k) (show_nat (unat (get c)))) stats)"

definition module_metrics :: "Server \<Rightarrow> string" where
  "module_metrics s =
     (let stats = sort_key fst (smoduleCounters s)
      in metric_header ''rsync_proxy_module_completed_connections_total'' ''Total completed connections by module and upstream.'' ''counter'' @
         module_samples ''rsync_proxy_module_completed_connections_total'' completed stats @
         metric_header ''rsync_proxy_module_sent_bytes_total'' ''Total bytes sent to clients by module and upstream.'' ''counter'' @
         module_samples ''rsync_proxy_module_sent_bytes_total'' sentBytes stats @
         metric_header ''rsync_proxy_module_received_bytes_total'' ''Total bytes received from clients by module and upstream.'' ''counter'' @
         module_samples ''rsync_proxy_module_received_bytes_total'' recvBytes stats)"

definition writePrometheusMetrics :: "(int \<Rightarrow> string) \<Rightarrow> int \<Rightarrow> Server \<Rightarrow> string \<times> Server" where
  "writePrometheusMetrics fmt3 now s =
     (let connections = ListConnectionInfo s; upstreams = sort_key Name (supstreams s);
          (t, s1) = upstream_metrics s upstreams
      in (queue_metrics s upstreams @ t @ connection_counts s1 @ group_metrics connections @
          connection_metrics fmt3 now connections @ total_metrics s1 @ module_metrics s1, s1))"

end
