(* ===== verification/Relay.thy ===== *)
theory Relay
  imports Server
begin

text \<open>
  \<open>relay\<close> and \<open>handleConn\<close> of \<open>pkg/server/server.go\<close>, the life of one client connection, cut where
  it waits: for the client, for its turn in the queue, for the upstream, for either end of the
  copying. Each piece is a function from the server and the connection's own state; \<open>relay_exec\<close>
  puts them together as a state machine driven by the events of the outside.
\<close>

section \<open>The state of a relay\<close>

text \<open>
  Where it is: before or after each wait, in the order of the code. \<open>PCopy a b\<close>: whether the copies
  to the upstream and to the client have ended; \<open>PDrain a b\<close>: the same after one of them made the
  relay close connections. \<open>PReturn r\<close> is about to run the deferred calls.
\<close>

datatype pc =
    PGreet | PMotd | PRoute | PAcquire | PFirst | PWait Status | PConnect
  | PCopy bool bool | PDrain bool bool | PFinish
  | PReturn "goerr option" | PPanic go_fault | PLeave "goerr option" "go_fault option" | PDone

record relay =
  rpc :: pc
  ridx :: "32 word"
  down :: conn
  up :: "conn option"
  rsyncdClientVersion :: string
  request :: string
  moduleName :: string
  rtarget :: Target
  rqueue :: "qid option"
  rhandle :: "hid option"

text \<open>The outside of a relay: the dialer, Go's quoting, the clock's rendering of a duration.\<close>

record relayenv =
  rdial :: "string \<Rightarrow> string \<Rightarrow> goerr + conn"
  rquote :: "string \<Rightarrow> string"
  rduration :: string

definition client_addr :: "relay \<Rightarrow> string" where
  "client_addr r = addr_String (remoteAddr (down r))"

definition client_ip :: "relay \<Rightarrow> string" where
  "client_ip r = netAddrToString (remoteAddr (down r))"

section \<open>Connection information\<close>

definition upd_info :: "32 word \<Rightarrow> (ConnInfo \<Rightarrow> ConnInfo) \<Rightarrow> Server \<Rightarrow> Server" where
  "upd_info i f s = s\<lparr>connInfo := AList.map_entry i f (connInfo s)\<rparr>"

text \<open>\<open>SetModule\<close> and \<open>SetUpstream\<close>\<close>

definition SetModule :: "32 word \<Rightarrow> string \<Rightarrow> Server \<Rightarrow> Server" where
  "SetModule i m s = upd_info i (\<lambda>c. c\<lparr>connModule := m\<rparr>) s"

definition SetUpstream :: "32 word \<Rightarrow> string \<Rightarrow> Server \<Rightarrow> Server" where
  "SetUpstream i u s = upd_info i (\<lambda>c. c\<lparr>connUpstream := u\<rparr>) s"

section \<open>Arrival\<close>

text \<open>
  \<open>handleConn\<close> up to the call of \<open>relay\<close>, and \<open>relay\<close> up to its first read; \<open>now\<close> is the time in
  seconds.
\<close>

definition accept :: "int \<Rightarrow> conn \<Rightarrow> Server \<Rightarrow> Server \<times> relay" where
  "accept now c s =
     (let i = connIndex s + 1;
          info = \<lparr>connIdx = i, connLocal = addr_String (localAddr c), connRemote = addr_String (remoteAddr c),
                  ConnectedAt = now, connModule = [], connUpstream = [], SentBytes = 0, ReceivedBytes = 0\<rparr>
      in (s\<lparr>activeConnCount := activeConnCount s + 1, acceptedConnCount := acceptedConnCount s + 1,
            connIndex := i, connInfo := AList.update i info (connInfo s)\<rparr>,
          \<lparr>rpc = PGreet, ridx = i, down = c, up = None, rsyncdClientVersion = [], request = [], moduleName = [],
           rtarget = \<lparr>Upstream = [], Addr = [], UseProxyProtocol = False\<rparr>, rqueue = None, rhandle = None\<rparr>))"

section \<open>The client's two lines\<close>

definition relay_greet :: "int \<Rightarrow> int \<Rightarrow> conn \<Rightarrow> ((goerr + string \<times> string) \<times> conn) option" where
  "relay_greet readTimeout writeTimeout c =
     (let addr = addr_String (remoteAddr c) in
      case readLine c ReadBufferSize readTimeout of
        None \<Rightarrow> None
      | Some ((v, Some e), c1) \<Rightarrow> Some (Inl (Wrapf (''read version from client '' @ addr) e), c1)
      | Some ((v, None), c1) \<Rightarrow>
          if \<not> hasPrefix v RsyncdVersionPrefix
          then Some (Inl (Errorq (''unknown version from client '' @ addr @ '': '') v), c1)
          else (case writeWithTimeout c1 RsyncdServerVersion writeTimeout of
            (Some e, c2) \<Rightarrow> Some (Inl (Wrapf (''send version to client '' @ addr) e), c2)
          | (None, c2) \<Rightarrow>
              (case readLine c2 ReadBufferSize readTimeout of
                 None \<Rightarrow> None
               | Some ((d, Some e), c3) \<Rightarrow> Some (Inl (Wrapf (''read module from client '' @ addr) e), c3)
               | Some ((d, None), c3) \<Rightarrow>
                   if d = [] then Some (Inl (Errorf (''empty request from client '' @ addr)), c3)
                   else Some (Inr (v, d), c3))))"

definition step_greet :: "Server \<Rightarrow> relay \<Rightarrow> relay option" where
  "step_greet s r =
     (case relay_greet (ReadTimeout s) (WriteTimeout s) (down r) of
        None \<Rightarrow> None
      | Some (Inl e, c) \<Rightarrow> Some (r\<lparr>down := c, rpc := PReturn (Some e)\<rparr>)
      | Some (Inr (v, d), c) \<Rightarrow> Some (r\<lparr>down := c, rsyncdClientVersion := v, request := d, rpc := PMotd\<rparr>))"

section \<open>Message of the day, list, target\<close>

definition step_motd :: "Server \<Rightarrow> relay \<Rightarrow> relay" where
  "step_motd s r =
     (if Motd s = [] then r\<lparr>rpc := PRoute\<rparr>
      else case writeWithTimeout (down r) (Motd s @ [LF]) (WriteTimeout s) of
             (Some e, c) \<Rightarrow> r\<lparr>down := c, rpc := PReturn (Some (Wrapf (''send motd to client '' @ client_addr r) e))\<rparr>
           | (None, c) \<Rightarrow> r\<lparr>down := c, rpc := PRoute\<rparr>)"

definition unknown_module :: "string \<Rightarrow> string" where
  "unknown_module m = ''@ERROR: Unknown module '' @ [CHR 0x27] @ m @ [CHR 0x27] @ [LF]"

definition step_route :: "Server \<Rightarrow> relay \<Rightarrow> Server \<times> relay" where
  "step_route s r =
     (if length (request r) = 1 then
        (let s1 = logAccess (''client '' @ client_addr r @ '' requests listing all modules'') s in
         case listAllModules (smodules s1) (WriteTimeout s1) (down r) of
           (e, c) \<Rightarrow> (s1, r\<lparr>down := c, rpc := PReturn e\<rparr>))
      else
        let m = butlast (request r); r1 = r\<lparr>moduleName := m\<rparr>; s1 = SetModule (ridx r) m s in
        case getTargetsForModule s1 m of
          None \<Rightarrow>
            (let s2 = s1\<lparr>unknownModuleCount := unknownModuleCount s1 + 1\<rparr>;
                 (e, c) = writeWithTimeout (down r) (unknown_module m) (WriteTimeout s)
             in (logAccess (''client '' @ client_ip r @ '' requests non-existing module '' @ m) s2,
                 r1\<lparr>down := c, rpc := PReturn None\<rparr>))
        | Some targets \<Rightarrow>
            (let i = chooseTargetByClientIP (ParseIP (client_ip r)) (length targets) in
             if length targets \<le> i then (s1, r1\<lparr>rpc := PPanic IndexOutOfRange\<rparr>)
             else (SetUpstream (ridx r) (Upstream (targets ! i)) s1, r1\<lparr>rtarget := targets ! i, rpc := PAcquire\<rparr>)))"

section \<open>The queue\<close>

definition step_acquire :: "Server \<Rightarrow> relay \<Rightarrow> Server \<times> relay" where
  "step_acquire s r =
     (case getQueueForUpstream s (Upstream (rtarget r)) of
        None \<Rightarrow> (s, r\<lparr>rpc := PReturn (Some (Errorf (''no queue configured for upstream '' @ Upstream (rtarget r))))\<rparr>)
      | Some q \<Rightarrow>
          (case Acquire (qheap s ! q) of
             Inl f \<Rightarrow> (s, r\<lparr>rpc := PPanic f\<rparr>)
           | Inr (h, w) \<Rightarrow> (s\<lparr>qheap := (qheap s)[q := w]\<rparr>, r\<lparr>rqueue := Some q, rhandle := Some h, rpc := PFirst\<rparr>)))"

definition queue_full_notice :: string where
  "queue_full_notice = ''Server queue is full for this upstream. Please retry later.'' @ [LF]"

definition position_notice :: "Status \<Rightarrow> string" where
  "position_notice st = ''Your position: '' @ show_int (Index st + 1) @ '', Total queued: '' @ show_int (Total st) @ [LF]"

definition limit_notice :: "string \<Rightarrow> int \<Rightarrow> string" where
  "limit_notice u mx = ''Upstream '' @ u @ '' has reached the maximum number of '' @ show_int mx @
     '' connections. Your request is being queued.'' @ [LF]"

definition notice_error :: "relay \<Rightarrow> goerr \<Rightarrow> goerr" where
  "notice_error r e = Wrapf (''send queue notice to client '' @ client_addr r) e"

definition send_notice :: "Server \<Rightarrow> relay \<Rightarrow> string \<Rightarrow> Status \<Rightarrow> relay" where
  "send_notice s r msg st =
     (case writeWithTimeout (down r) msg (WriteTimeout s) of
        (Some e, c) \<Rightarrow> r\<lparr>down := c, rpc := PReturn (Some (notice_error r e))\<rparr>
      | (None, c) \<Rightarrow> r\<lparr>down := c, rpc := PWait st\<rparr>)"

text \<open>What the relay makes of the first status; \<open>w\<close> is the queue.\<close>

definition on_first :: "Server \<Rightarrow> relay \<Rightarrow> qworld \<Rightarrow> Status \<Rightarrow> Server \<times> relay" where
  "on_first s r w st =
     (if Full st then
        (let s1 = s\<lparr>supstreamCounters := count_queueFull (Upstream (rtarget r)) (supstreamCounters s)\<rparr>;
             s2 = logAccess (''client '' @ client_ip r @ '' queue full for module '' @ moduleName r) s1;
             (e1, c1) = writeWithTimeout (down r) queue_full_notice (WriteTimeout s);
             (e2, c2) = writeWithTimeout c1 RsyncdExit (WriteTimeout s)
         in (s2, r\<lparr>down := c2, rpc := PReturn None\<rparr>))
      else if \<not> Ok st then
        (logAccess (''client '' @ client_ip r @ '' starts queueing for module '' @ moduleName r) s,
         send_notice s r (limit_notice (Upstream (rtarget r)) (GetMax w) @ position_notice st) st)
      else (s, r\<lparr>rpc := PConnect\<rparr>))"

definition on_next :: "Server \<Rightarrow> relay \<Rightarrow> Status \<Rightarrow> relay" where
  "on_next s r st = (if Ok st then r\<lparr>rpc := PConnect\<rparr> else send_notice s r (position_notice st) st)"

text \<open>\<open><-handle.C\<close>\<close>

definition receive :: "Server \<Rightarrow> relay \<Rightarrow> (Status \<times> qid \<times> qworld) option" where
  "receive s r = (case (rqueue r, rhandle r) of
      (Some q, Some h) \<Rightarrow> map_option (\<lambda>(st, w). (st, q, w)) (Recv h (qheap s ! q)) | _ \<Rightarrow> None)"

definition step_receive :: "Server \<Rightarrow> relay \<Rightarrow> (Server \<times> relay) option" where
  "step_receive s r =
     (case receive s r of
        None \<Rightarrow> None
      | Some (st, q, w) \<Rightarrow>
          (let s1 = s\<lparr>qheap := (qheap s)[q := w]\<rparr> in
           case rpc r of
             PFirst \<Rightarrow> Some (on_first s1 r w st)
           | PWait old \<Rightarrow> Some (s1, on_next s1 r st)
           | _ \<Rightarrow> None))"

text \<open>\<open>time.After(1 * time.Minute)\<close>: the old status again.\<close>

definition step_tick :: "Server \<Rightarrow> relay \<Rightarrow> relay option" where
  "step_tick s r = (case rpc r of PWait st \<Rightarrow> Some (send_notice s r (position_notice st) st) | _ \<Rightarrow> None)"

section \<open>The upstream\<close>

text \<open>
  The handshake with the upstream on the connection \<open>u\<close>: PROXY header, the client's version line,
  the upstream's version line, what came after it on to the client, the module. The result is an
  error or nothing, and both connections.
\<close>

definition upstream_hello :: "int \<Rightarrow> int \<Rightarrow> relay \<Rightarrow> conn \<Rightarrow> (goerr option \<times> conn \<times> conn) option" where
  "upstream_hello readTimeout writeTimeout r u =
     (let d = down r; upAddr = netAddrToString (remoteAddr u) in
      case (if UseProxyProtocol (rtarget r) then writeProxyProtocolHeader u (remoteAddr d) (remoteAddr u) writeTimeout
            else (None, u)) of
        (Some e, u1) \<Rightarrow> Some (Some (Wrapf (''send proxy protocol header to upstream '' @ upAddr) e), d, u1)
      | (None, u1) \<Rightarrow>
      (case writeWithTimeout u1 (rsyncdClientVersion r) writeTimeout of
        (Some e, u2) \<Rightarrow> Some (Some (Wrapf (''send version to upstream '' @ upAddr) e), d, u2)
      | (None, u2) \<Rightarrow>
      (case readLine u2 ReadBufferSize readTimeout of
        None \<Rightarrow> None
      | Some ((v, Some e), u3) \<Rightarrow> Some (Some (Wrapf (''read version from upstream '' @ upAddr) e), d, u3)
      | Some ((v, None), u3) \<Rightarrow>
          if \<not> hasPrefix v RsyncdVersionPrefix
          then Some (Some (Errorf (''unknown version from upstream '' @ upAddr @ '': '' @ v)), d, u3)
          else
            let rest = (case indexByte LF v of Some i \<Rightarrow> drop (Suc i) v | None \<Rightarrow> v) in
            (case (if rest = [] then (None, d) else writeWithTimeout d rest writeTimeout) of
               (Some e, d1) \<Rightarrow> Some (Some (Wrapf (''send motd to client '' @ client_ip r) e), d1, u3)
             | (None, d1) \<Rightarrow>
                 (case writeWithTimeout u3 (moduleName r @ [LF]) writeTimeout of
                    (Some e, u4) \<Rightarrow> Some (Some (Wrapf (''send module to upstream '' @ upAddr) e), d1, u4)
                  | (None, u4) \<Rightarrow> Some (None, d1, u4))))))"

definition step_connect :: "relayenv \<Rightarrow> Server \<Rightarrow> relay \<Rightarrow> (Server \<times> relay) option" where
  "step_connect env s r =
     (let t = rtarget r in
      case dialContextTCPOrUnix (rdial env) (Addr t) of
        Inl e \<Rightarrow>
          Some (s\<lparr>supstreamCounters := count_dialError (Upstream t) (supstreamCounters s)\<rparr>,
                r\<lparr>rpc := PReturn (Some (Wrapf (''dial to upstream: '' @ Addr t) e))\<rparr>)
      | Inr u \<Rightarrow>
          (case upstream_hello (ReadTimeout s) (WriteTimeout s) r u of
             None \<Rightarrow> None
           | Some (Some e, d1, u1) \<Rightarrow> Some (s, r\<lparr>down := d1, up := Some u1, rpc := PReturn (Some e)\<rparr>)
           | Some (None, d1, u1) \<Rightarrow>
               Some (logAccess (''client '' @ client_ip r @ '' starts requesting module '' @ moduleName r) s,
                     r\<lparr>down := clear_deadline d1, up := Some (clear_deadline u1), rpc := PCopy False False\<rparr>)))"

section \<open>Copying\<close>

text \<open>
  One round of \<open>io.Copy\<close>: a read, and a write of what it got. The result is the number of bytes
  read (what \<open>countingReader\<close> counts) and, when the copy ends with this round, its error. A closed
  connection answers with an error.
\<close>

definition copyBufferSize :: nat where "copyBufferSize = 32768"

definition live_read :: "nat \<Rightarrow> conn \<Rightarrow> (string \<times> goerr option) \<times> conn" where
  "live_read k c = (if connClosed c then (([], Some ErrClosed), c) else conn_read k c)"

definition live_write :: "string \<Rightarrow> conn \<Rightarrow> goerr option \<times> conn" where
  "live_write bs c = (if connClosed c then (Some ErrClosed, c) else conn_write bs c)"

definition copy_end :: "goerr option \<Rightarrow> goerr option option" where
  "copy_end e = (case e of None \<Rightarrow> None | Some e \<Rightarrow> Some (if e = EOF then None else Some e))"

definition copy_round :: "conn \<Rightarrow> conn \<Rightarrow> (nat \<times> goerr option option) \<times> conn \<times> conn" where
  "copy_round src dst =
     (case live_read copyBufferSize src of
        ((bs, er), src1) \<Rightarrow>
          if bs = [] then ((0, copy_end er), src1, dst)
          else (case live_write bs dst of
                  (Some ew, dst1) \<Rightarrow> ((length bs, Some (Some ew)), src1, dst1)
                | (None, dst1) \<Rightarrow> ((length bs, copy_end er), src1, dst1)))"

definition log_copy :: "relayenv \<Rightarrow> string \<Rightarrow> goerr option option \<Rightarrow> Server \<Rightarrow> Server" where
  "log_copy env dir e s = (case e of Some (Some err) \<Rightarrow> logError (''copy from '' @ dir @ '': '' @ err_text (rquote env) err) s | _ \<Rightarrow> s)"

text \<open>The two goroutines; \<open>set_flags\<close> notes that one of them has closed its channel.\<close>

definition flags :: "pc \<Rightarrow> (bool \<times> bool) option" where
  "flags p = (case p of PCopy a b \<Rightarrow> Some (a, b) | PDrain a b \<Rightarrow> Some (a, b) | _ \<Rightarrow> None)"

fun set_flags :: "pc \<Rightarrow> bool \<Rightarrow> bool \<Rightarrow> pc" where
  "set_flags (PCopy _ _) a b = PCopy a b"
| "set_flags (PDrain _ _) a b = PDrain a b"
| "set_flags p a b = p"

definition step_copy_up :: "relayenv \<Rightarrow> Server \<Rightarrow> relay \<Rightarrow> (Server \<times> relay) option" where
  "step_copy_up env s r =
     (case (flags (rpc r), up r) of
        (Some (False, b), Some u) \<Rightarrow>
          (case copy_round (down r) u of
             ((n, e), d1, u1) \<Rightarrow>
               Some (log_copy env ''downstream to upstream'' e
                       (upd_info (ridx r) (\<lambda>c. c\<lparr>ReceivedBytes := ReceivedBytes c + of_nat n\<rparr>) s),
                     r\<lparr>down := d1, up := Some u1, rpc := set_flags (rpc r) (e \<noteq> None) b\<rparr>))
      | _ \<Rightarrow> None)"

definition step_copy_down :: "relayenv \<Rightarrow> Server \<Rightarrow> relay \<Rightarrow> (Server \<times> relay) option" where
  "step_copy_down env s r =
     (case (flags (rpc r), up r) of
        (Some (a, False), Some u) \<Rightarrow>
          (case copy_round u (down r) of
             ((n, e), u1, d1) \<Rightarrow>
               Some (log_copy env ''upstream to downstream'' e
                       (upd_info (ridx r) (\<lambda>c. c\<lparr>SentBytes := SentBytes c + of_nat n\<rparr>) s),
                     r\<lparr>down := d1, up := Some u1, rpc := set_flags (rpc r) a (e \<noteq> None)\<rparr>))
      | _ \<Rightarrow> None)"

text \<open>
  The \<open>select\<close>: which of the two cases runs, when both are ready, is open. \<open>res\<close> is the result of
  \<open>CloseRead\<close>.
\<close>

definition log_close :: "relayenv \<Rightarrow> string \<Rightarrow> goerr option \<Rightarrow> Server \<Rightarrow> Server" where
  "log_close env side e s =
     (case e of None \<Rightarrow> s | Some err \<Rightarrow> logError (''close '' @ side @ '' read: '' @ err_text (rquote env) err) s)"

definition step_received_closed :: "relayenv \<Rightarrow> goerr option \<Rightarrow> Server \<Rightarrow> relay \<Rightarrow> (Server \<times> relay) option" where
  "step_received_closed env res s r =
     (case (rpc r, up r) of
        (PCopy a True, Some u) \<Rightarrow>
          (case closeRead res u True of
             (e, u1) \<Rightarrow> Some (log_close env ''upstream'' e s, r\<lparr>up := Some u1, down := conn_close (down r), rpc := PDrain a True\<rparr>))
      | _ \<Rightarrow> None)"

definition step_sent_closed :: "relayenv \<Rightarrow> goerr option \<Rightarrow> Server \<Rightarrow> relay \<Rightarrow> (Server \<times> relay) option" where
  "step_sent_closed env res s r =
     (case (rpc r, up r) of
        (PCopy True b, Some u) \<Rightarrow>
          (case closeRead res (down r) False of
             (e, d1) \<Rightarrow> Some (log_close env ''downstream'' e s, r\<lparr>up := Some (conn_close u), down := d1, rpc := PDrain True b\<rparr>))
      | _ \<Rightarrow> None)"

section \<open>The end\<close>

definition info_of :: "Server \<Rightarrow> relay \<Rightarrow> ConnInfo option" where
  "info_of s r = map_of (connInfo s) (ridx r)"

text \<open>Both copies have ended: the totals and the counters of the module.\<close>

definition step_finish :: "relayenv \<Rightarrow> Server \<Rightarrow> relay \<Rightarrow> Server \<times> relay" where
  "step_finish env s r =
     (let n = (case info_of s r of Some c \<Rightarrow> SentBytes c | None \<Rightarrow> 0);
          m = (case info_of s r of Some c \<Rightarrow> ReceivedBytes c | None \<Rightarrow> 0);
          s1 = s\<lparr>completedConnCount := completedConnCount s + 1, sentBytesTotal := sentBytesTotal s + n,
                 recvBytesTotal := recvBytesTotal s + m,
                 smoduleCounters := count_relay (moduleName r, Upstream (rtarget r)) n m (smoduleCounters s)\<rparr>
      in (logAccess (''client '' @ client_ip r @ '' finishes module '' @ moduleName r @ '' (sent: '' @ show_int (sint n) @
            '', received: '' @ show_int (sint m) @ '', duration: '' @ rduration env @ '')'') s1,
          r\<lparr>rpc := PReturn None\<rparr>))"

text \<open>The deferred \<open>upConn.Close\<close> and \<open>handle.Release\<close>, after a return or a panic.\<close>

definition step_return :: "Server \<Rightarrow> relay \<Rightarrow> goerr option \<Rightarrow> go_fault option \<Rightarrow> Server \<times> relay" where
  "step_return s r e f =
     (let r1 = r\<lparr>up := map_option conn_close (up r), rpc := PLeave e f\<rparr> in
      case (rqueue r, rhandle r) of
        (Some q, Some h) \<Rightarrow>
          (case Release h (qheap s ! q) of
             Inr w \<Rightarrow> (s\<lparr>qheap := (qheap s)[q := w]\<rparr>, r1)
           | Inl f' \<Rightarrow> (s, r1\<lparr>rpc := PLeave e (Some f')\<rparr>))
      | _ \<Rightarrow> (s, r1))"

text \<open>
  The deferred \<open>connInfo.Delete\<close> and \<open>downConn.Close\<close>, the log of the error and the end of
  \<open>handleConn\<close>.
\<close>

definition step_leave :: "relayenv \<Rightarrow> Server \<Rightarrow> relay \<Rightarrow> goerr option \<Rightarrow> go_fault option \<Rightarrow> Server \<times> relay" where
  "step_leave env s r e f =
     (let s1 = s\<lparr>connInfo := AList.delete (ridx r) (connInfo s)\<rparr>;
          s2 = (case f of
                  Some _ \<Rightarrow> logError ''handleConn panicked'' s1
                | None \<Rightarrow> (case e of None \<Rightarrow> s1 | Some err \<Rightarrow> logError (''handleConn: '' @ err_text (rquote env) err) s1))
      in (s2\<lparr>activeConnCount := activeConnCount s2 - 1\<rparr>, r\<lparr>down := conn_close (down r), rpc := PDone\<rparr>))"

section \<open>All together\<close>

datatype revent =
    RGo                            \<comment> \<open>on to the next wait\<close>
  | RStatus                        \<comment> \<open>a receive from the handle's channel\<close>
  | RTick                          \<comment> \<open>a minute has passed\<close>
  | RCopyUp | RCopyDown            \<comment> \<open>a round of one of the two copies\<close>
  | RReceivedClosed "goerr option" \<comment> \<open>the \<open>select\<close> takes its first case\<close>
  | RSentClosed "goerr option"     \<comment> \<open>the \<open>select\<close> takes its second case\<close>

definition relay_go :: "relayenv \<Rightarrow> Server \<Rightarrow> relay \<Rightarrow> (Server \<times> relay) option" where
  "relay_go env s r =
     (case rpc r of
        PGreet \<Rightarrow> map_option (\<lambda>r1. (s, r1)) (step_greet s r)
      | PMotd \<Rightarrow> Some (s, step_motd s r)
      | PRoute \<Rightarrow> Some (step_route s r)
      | PAcquire \<Rightarrow> Some (step_acquire s r)
      | PConnect \<Rightarrow> step_connect env s r
      | PDrain True True \<Rightarrow> Some (s, r\<lparr>rpc := PFinish\<rparr>)
      | PFinish \<Rightarrow> Some (step_finish env s r)
      | PReturn e \<Rightarrow> Some (step_return s r e None)
      | PPanic f \<Rightarrow> Some (step_return s r None (Some f))
      | PLeave e f \<Rightarrow> Some (step_leave env s r e f)
      | _ \<Rightarrow> None)"

fun relay_exec :: "relayenv \<Rightarrow> Server \<times> relay \<Rightarrow> revent \<Rightarrow> (Server \<times> relay) option" where
  "relay_exec env (s, r) RGo = relay_go env s r"
| "relay_exec env (s, r) RStatus = step_receive s r"
| "relay_exec env (s, r) RTick = map_option (\<lambda>r1. (s, r1)) (step_tick s r)"
| "relay_exec env (s, r) RCopyUp = step_copy_up env s r"
| "relay_exec env (s, r) RCopyDown = step_copy_down env s r"
| "relay_exec env (s, r) (RReceivedClosed res) = step_received_closed env res s r"
| "relay_exec env (s, r) (RSentClosed res) = step_sent_closed env res s r"

text \<open>Every step is one of these; what a relay can do depends on where it is.\<close>

lemma relay_exec_cases [consumes 1, case_names greet motd route acquire connect drained finish returns panics leave
    status tick up_round down_round received_closed sent_closed]:
  assumes "relay_exec env (s, r) e = Some (s', r')"
  obtains "rpc r = PGreet" "step_greet s r = Some r'" "s' = s"
  | "rpc r = PMotd" "r' = step_motd s r" "s' = s"
  | "rpc r = PRoute" "step_route s r = (s', r')"
  | "rpc r = PAcquire" "step_acquire s r = (s', r')"
  | "rpc r = PConnect" "step_connect env s r = Some (s', r')"
  | "rpc r = PDrain True True" "r' = r\<lparr>rpc := PFinish\<rparr>" "s' = s"
  | "rpc r = PFinish" "step_finish env s r = (s', r')"
  | x where "rpc r = PReturn x" "step_return s r x None = (s', r')"
  | f where "rpc r = PPanic f" "step_return s r None (Some f) = (s', r')"
  | x f where "rpc r = PLeave x f" "step_leave env s r x f = (s', r')"
  | "step_receive s r = Some (s', r')"
  | "step_tick s r = Some r'" "s' = s"
  | "step_copy_up env s r = Some (s', r')"
  | "step_copy_down env s r = Some (s', r')"
  | res where "step_received_closed env res s r = Some (s', r')"
  | res where "step_sent_closed env res s r = Some (s', r')"
proof (cases e)
  case RGo
  with assms have go: "relay_go env s r = Some (s', r')" by simp
  show thesis
  proof (cases "rpc r")
    case PGreet
    with go have "step_greet s r = Some r' \<and> s' = s" by (auto simp: relay_go_def)
    with PGreet that(1) show thesis by blast
  next
    case PMotd
    with go have "r' = step_motd s r \<and> s' = s" by (auto simp: relay_go_def)
    with PMotd that(2) show thesis by blast
  next
    case PRoute
    with go that(3) show thesis by (simp add: relay_go_def)
  next
    case PAcquire
    with go that(4) show thesis by (simp add: relay_go_def)
  next
    case PConnect
    with go that(5) show thesis by (simp add: relay_go_def)
  next
    case (PDrain a b)
    with go have "a \<and> b \<and> r' = r\<lparr>rpc := PFinish\<rparr> \<and> s' = s" by (cases a; cases b) (auto simp: relay_go_def)
    with PDrain that(6) show thesis by simp
  next
    case PFinish
    with go that(7) show thesis by (simp add: relay_go_def)
  next
    case PReturn
    with go that(8) show thesis by (simp add: relay_go_def)
  next
    case PPanic
    with go that(9) show thesis by (simp add: relay_go_def)
  next
    case PLeave
    with go that(10) show thesis by (simp add: relay_go_def)
  qed (use go in \<open>simp_all add: relay_go_def\<close>)
next
  case RStatus
  with assms that(11) show thesis by simp
next
  case RTick
  with assms have "step_tick s r = Some r' \<and> s' = s" by auto
  with that(12) show thesis by blast
qed (use assms that(13-16) in simp_all)

text \<open>Without interference: one relay on a server, driven by a list of events.\<close>

fun relay_execs :: "relayenv \<Rightarrow> Server \<times> relay \<Rightarrow> revent list \<Rightarrow> (Server \<times> relay) option" where
  "relay_execs env x [] = Some x"
| "relay_execs env x (e # es) = (case relay_exec env x e of None \<Rightarrow> None | Some y \<Rightarrow> relay_execs env y es)"

end
