(* ===== verification/Admission.thy ===== *)
theory Admission
  imports QueueSystem
begin

text \<open>
  What the relays rely on in a queue, as an interface: the handles that are out (\<open>live\<close>), those
  among them that were admitted (\<open>holders\<close>), and how the operations change the two. The clients of
  the interface keep tickets: each one its handle and whether it was admitted.
\<close>

locale slot_queue =
  fixes step :: "'w \<Rightarrow> qevent \<Rightarrow> 'w \<Rightarrow> bool"
    and wf :: "'w \<Rightarrow> bool"
    and live :: "'w \<Rightarrow> hid set"
    and holders :: "'w \<Rightarrow> hid set"
    and inuse :: "'w \<Rightarrow> nat"
  assumes wf_step: "wf w \<Longrightarrow> step w e w' \<Longrightarrow> wf w'"
    and live_acquire: "wf w \<Longrightarrow> step w (EAcquire h) w' \<Longrightarrow> h \<notin> live w \<and> live w' = insert h (live w)"
    and live_release: "wf w \<Longrightarrow> step w (ERelease h) w' \<Longrightarrow> live w' = live w - {h}"
    and live_recv: "wf w \<Longrightarrow> step w (ERecv h st) w' \<Longrightarrow> live w' = live w"
    and live_setmax: "wf w \<Longrightarrow> step w (ESetMax m k) w' \<Longrightarrow> live w' = live w"
    and admitted: "wf w \<Longrightarrow> step w (ERecv h st) w' \<Longrightarrow> Ok st \<Longrightarrow> h \<in> live w \<Longrightarrow> h \<in> holders w'"
    and keeps: "wf w \<Longrightarrow> step w e w' \<Longrightarrow> e \<noteq> ERelease h \<Longrightarrow> h \<in> holders w \<Longrightarrow> h \<in> holders w'"
    and holders_inuse: "wf w \<Longrightarrow> finite (holders w) \<and> card (holders w) \<le> inuse w"
begin

definition tids :: "('i \<rightharpoonup> hid \<times> bool) \<Rightarrow> hid set" where
  "tids T = {h. \<exists>i a. T i = Some (h, a)}"

definition tickets_ok :: "'w \<Rightarrow> ('i \<rightharpoonup> hid \<times> bool) \<Rightarrow> bool" where
  "tickets_ok w T \<longleftrightarrow> tids T = live w \<and>
     (\<forall>i j h a b. T i = Some (h, a) \<longrightarrow> T j = Some (h, b) \<longrightarrow> i = j) \<and> (\<forall>i h. T i = Some (h, True) \<longrightarrow> h \<in> holders w)"

lemma ticketD:
  assumes "tickets_ok w T" "T i = Some (h, a)"
  shows "h \<in> live w" "T j = Some (h, b) \<Longrightarrow> j = i" "a \<Longrightarrow> h \<in> holders w"
  using assms by (auto simp: tickets_ok_def tids_def)

lemma tids_new: "T i = None \<Longrightarrow> tids (T(i \<mapsto> (h, a))) = insert h (tids T)"
  by (auto simp: tids_def) (metis option.distinct(1))

lemma tids_change: "T i = Some (h, a) \<Longrightarrow> tids (T(i \<mapsto> (h, b))) = tids T"
  by (auto simp: tids_def) (metis option.inject prod.inject)

lemma tickets_acquire:
  assumes "wf w" "tickets_ok w T" "step w (EAcquire h) w'" "T i = None"
  shows "tickets_ok w' (T(i \<mapsto> (h, False)))"
proof -
  note L = live_acquire [OF assms(1,3)]
  have new: "T j \<noteq> Some (h, a)" for j a using ticketD(1) [OF assms(2)] L by blast
  have "tids (T(i \<mapsto> (h, False))) = live w'"
    using assms(2,4) L by (simp add: tids_new tickets_ok_def)
  moreover have "k \<in> holders w \<Longrightarrow> k \<in> holders w'" for k using keeps [OF assms(1,3)] by simp
  ultimately show ?thesis using assms(2) new unfolding tickets_ok_def by (auto split: if_splits)
qed

text \<open>A flag may be lowered at any time, and raised by receiving an admission.\<close>

lemma tickets_flag:
  assumes "tids T = live w'" "\<And>i j h a b. T i = Some (h, a) \<Longrightarrow> T j = Some (h, b) \<Longrightarrow> i = j"
    "\<And>i h. T i = Some (h, True) \<Longrightarrow> h \<in> holders w'" "T i = Some (h, a)" "b \<Longrightarrow> h \<in> holders w'"
  shows "tickets_ok w' (T(i \<mapsto> (h, b)))"
  unfolding tickets_ok_def tids_change [of T, OF assms(4), of b]
  using assms(1) assms(3,5) assms(2) [of _ h _ i a, OF _ assms(4)] assms(2) by (auto split: if_splits)

lemma tickets_lower:
  assumes "tickets_ok w T" "T i = Some (h, a)" "b \<longrightarrow> a"
  shows "tickets_ok w (T(i \<mapsto> (h, b)))"
  by (rule tickets_flag [where T = T and i = i and a = a]) (use assms ticketD(3) in \<open>auto simp: tickets_ok_def\<close>)

lemma tickets_recv:
  assumes "wf w" "tickets_ok w T" "step w (ERecv h st) w'" "T i = Some (h, a)" "b \<longrightarrow> a \<or> Ok st"
  shows "tickets_ok w' (T(i \<mapsto> (h, b)))"
proof (rule tickets_flag [where T = T and i = i and a = a])
  show "T i = Some (h, a)" by (rule assms(4))
  have k: "k \<in> holders w \<Longrightarrow> k \<in> holders w'" for k using keeps [OF assms(1,3)] by simp
  show "b \<Longrightarrow> h \<in> holders w'"
    using assms(5) k ticketD(3) [OF assms(2,4)] admitted [OF assms(1,3)] ticketD(1) [OF assms(2,4)] by blast
  show "tids T = live w'" using assms(2) live_recv [OF assms(1,3)] by (simp add: tickets_ok_def)
  show "T j = Some (m, True) \<Longrightarrow> m \<in> holders w'" for j m using assms(2) k by (auto simp: tickets_ok_def)
  show "T j = Some (m, c) \<Longrightarrow> T l = Some (m, d) \<Longrightarrow> j = l" for j l m c d using assms(2) by (auto simp: tickets_ok_def)
qed

lemma tickets_release:
  assumes "wf w" "tickets_ok w T" "step w (ERelease h) w'" "T i = Some (h, a)"
  shows "tickets_ok w' (T(i := None))"
proof -
  have other: "j \<noteq> i \<Longrightarrow> T j = Some (k, c) \<Longrightarrow> k \<noteq> h" for j k c using ticketD(2) [OF assms(2,4)] by blast
  have "tids (T(i := None)) = tids T - {h}"
    using other assms(4) by (auto simp: tids_def) (metis option.inject prod.inject)
  then have "tids (T(i := None)) = live w'"
    using live_release [OF assms(1,3)] assms(2) by (simp add: tickets_ok_def)
  moreover have "T j = Some (k, True) \<Longrightarrow> j \<noteq> i \<Longrightarrow> k \<in> holders w'" for j k
    using keeps [OF assms(1,3), of k] other ticketD(3) [OF assms(2)] by fastforce
  ultimately show ?thesis using assms(2) unfolding tickets_ok_def by (auto split: if_splits)
qed

lemma tickets_setmax:
  assumes "wf w" "tickets_ok w T" "step w (ESetMax m k) w'"
  shows "tickets_ok w' T"
  using assms(2) live_setmax [OF assms(1,3)] keeps [OF assms(1,3)] unfolding tickets_ok_def by auto

text \<open>No more tickets are admitted than slots are in use; without tickets, no handle is out.\<close>

lemma tickets_bound:
  assumes "wf w" "tickets_ok w T" "finite A" "\<forall>i \<in> A. \<exists>h. T i = Some (h, True)"
  shows "card A \<le> inuse w"
proof -
  define f where "f i = fst (the (T i))" for i
  have T: "i \<in> A \<Longrightarrow> T i = Some (f i, True)" for i using assms(4) by (force simp: f_def)
  then have "f ` A \<subseteq> holders w" using ticketD(3) [OF assms(2)] by blast
  moreover have "inj_on f A" using T ticketD(2) [OF assms(2)] by (metis inj_onI)
  ultimately have "card A \<le> card (holders w)" using holders_inuse [OF assms(1)] by (metis card_image card_mono)
  with holders_inuse [OF assms(1)] show ?thesis by linarith
qed

lemma tickets_none: "tickets_ok w Map.empty \<Longrightarrow> live w = {}"
  by (simp add: tickets_ok_def tids_def)

lemma tickets_empty: "live w = {} \<Longrightarrow> tickets_ok w Map.empty"
  by (simp add: tickets_ok_def tids_def)

end

text \<open>The queue of \<open>pkg/queue\<close> is one.\<close>

definition live_handles :: "qworld \<Rightarrow> hid set" where
  "live_handles w = {h. h < length (handles w) \<and> \<not> released (handles w ! h)}"

definition admitted_handles :: "qworld \<Rightarrow> hid set" where
  "admitted_handles w = {h. served h w \<and> \<not> released (handles w ! h)}"

definition queue_wf :: "qworld \<Rightarrow> bool" where
  "queue_wf w \<longleftrightarrow> queue_inv w \<and> ok_mail w"

lemma queue_wf_New: "queue_wf (New mx mq)"
  using run_served [OF run_Nil, of mx mq] by (simp add: queue_wf_def)

lemma Release_handles:
  assumes "queue_inv w" "Release h w = Inr w'"
  shows "h < length (handles w) \<and> handles w' = (handles w)[h := (handles w ! h)\<lparr>released := True\<rparr>]"
proof -
  have h: "h < length (handles w)" using assms(2) by (auto simp: Release_def split: if_splits)
  show ?thesis
  proof (cases "released (handles w ! h)")
    case True
    then have "w' = w" using Release_released [OF h] assms(2) by simp
    moreover have "(handles w)[h := (handles w ! h)\<lparr>released := True\<rparr>] = handles w"
      using True h by (metis internalHandle.surjective internalHandle.update_convs(2) list_update_id old.unit.exhaust)
    ultimately show ?thesis using h by simp
  next
    case False
    then show ?thesis using Release_Inr [OF assms(1) h] assms(2) h by auto
  qed
qed

lemma holder_keeps:
  assumes "queue_wf w" "qstep w e w'" "e \<noteq> ERelease h" "h \<in> admitted_handles w"
  shows "h \<in> admitted_handles w'"
proof -
  have inv: "queue_inv w" using assms(1) by (simp add: queue_wf_def)
  have s: "served h w'" using qstep_served [OF inv _ assms(2)] assms(4) by (simp add: admitted_handles_def)
  have h: "h < length (handles w)" using assms(4) queue_invD(1) [OF inv] by (simp add: admitted_handles_def served_def)
  have "\<not> released (handles w' ! h)"
    using assms(2,3,4) h Acquire_InrD(2) [OF inv] Release_handles [OF inv] Recv_frame
    by (cases e) (auto simp: admitted_handles_def SetMax_def nth_append nth_list_update)
  with s show ?thesis by (simp add: admitted_handles_def)
qed

lemma live_handles_step:
  assumes "queue_wf w"
  shows "Acquire w = Inr (h, w') \<Longrightarrow> h \<notin> live_handles w \<and> live_handles w' = insert h (live_handles w)"
    "Release h w = Inr w' \<Longrightarrow> live_handles w' = live_handles w - {h}"
proof -
  have inv: "queue_inv w" using assms by (simp add: queue_wf_def)
  show "Acquire w = Inr (h, w') \<Longrightarrow> h \<notin> live_handles w \<and> live_handles w' = insert h (live_handles w)"
    using Acquire_InrD [OF inv] queue_invD(1) [OF inv]
    by (auto simp: live_handles_def nth_append less_Suc_eq)
  show "Release h w = Inr w' \<Longrightarrow> live_handles w' = live_handles w - {h}"
    using Release_handles [OF inv] by (auto simp: live_handles_def nth_list_update)
qed

interpretation slots: slot_queue qstep queue_wf live_handles admitted_handles "\<lambda>w. length (active (que w))"
proof unfold_locales
  show "queue_wf w'" if "queue_wf w" "qstep w e w'" for w e w'
    using that qstep_inv qstep_ok_mail by (auto simp: queue_wf_def)
  show "h \<notin> live_handles w \<and> live_handles w' = insert h (live_handles w)" if "queue_wf w" "qstep w (EAcquire h) w'" for w h w'
    using live_handles_step(1) [OF that(1)] that(2) by simp
  show "live_handles w' = live_handles w - {h}" if "queue_wf w" "qstep w (ERelease h) w'" for w h w'
    using live_handles_step(2) [OF that(1)] that(2) by simp
  show "live_handles w' = live_handles w" if "queue_wf w" "qstep w (ERecv h st) w'" for w h st w'
    using that Recv_frame by (auto simp: live_handles_def)
  show "live_handles w' = live_handles w" if "queue_wf w" "qstep w (ESetMax m k) w'" for w m k w'
    using that by (simp add: live_handles_def SetMax_def)
  show "h \<in> admitted_handles w'" if "queue_wf w" "qstep w (ERecv h st) w'" "Ok st" "h \<in> live_handles w" for w h st w'
    using that recv_ok_served [of w h st w'] Recv_frame [of h w st w']
    by (auto simp: queue_wf_def admitted_handles_def live_handles_def)
  show "h \<in> admitted_handles w'" if "queue_wf w" "qstep w e w'" "e \<noteq> ERelease h" "h \<in> admitted_handles w" for w e w' h
    using holder_keeps that by blast
  show "finite (admitted_handles w) \<and> card (admitted_handles w) \<le> length (active (que w))" if "queue_wf w" for w
  proof -
    have "admitted_handles w \<subseteq> set (active (que w))" by (auto simp: admitted_handles_def served_def)
    then show ?thesis by (meson List.finite_set card_length card_mono finite_subset le_trans)
  qed
qed

text \<open>When no handle is out, both lists are empty.\<close>

lemma no_live_idle:
  assumes "queue_wf w" "live_handles w = {}"
  shows "active (que w) = [] \<and> queued (que w) = []"
proof -
  have inv: "queue_inv w" using assms(1) by (simp add: queue_wf_def)
  have "c \<notin> set (active (que w))" "c \<notin> set (queued (que w))" for c
    using assms(2) queue_invD(1) [OF inv] queue_invD(6,7) [OF inv, of c] by (auto simp: live_handles_def)
  then show ?thesis by (metis list.set_intros(1) neq_Nil_conv)
qed

end
