(* ===== verification/System.thy ===== *)
theory System
  imports Relay Admission ServerInv
begin

text \<open>
  The whole server: all its connections, each at its own point of \<open>relay\<close>, and reloads, in any
  order. A step is an arrival, one piece of one relay, or a load of a configuration; the mutexes
  make each queue operation, each lookup and each load one step.
\<close>

record sys =
  srv :: Server
  conns :: "relay list"

datatype sevent =
    SAccept int conn
  | SRelay nat relayenv revent
  | SReload loadenv Config bool

fun sys_exec :: "sys \<Rightarrow> sevent \<Rightarrow> sys option" where
  "sys_exec S (SAccept now c) = (case accept now c (srv S) of (s, r) \<Rightarrow> Some \<lparr>srv = s, conns = conns S @ [r]\<rparr>)"
| "sys_exec S (SRelay i env e) =
     (if i < length (conns S)
      then map_option (\<lambda>(s, r). \<lparr>srv = s, conns = (conns S)[i := r]\<rparr>) (relay_exec env (srv S, conns S ! i) e)
      else None)"
| "sys_exec S (SReload env c openLog) = map_option (\<lambda>(r, s). S\<lparr>srv := s\<rparr>) (loadConfig env c openLog (srv S))"

definition sys_step :: "sys \<Rightarrow> sevent \<Rightarrow> sys \<Rightarrow> bool" where
  "sys_step S e S' \<longleftrightarrow> sys_exec S e = Some S'"

text \<open>Runs are computed by \<open>sys_execs\<close>.\<close>

fun sys_execs :: "sys \<Rightarrow> sevent list \<Rightarrow> sys option" where
  "sys_execs S [] = Some S"
| "sys_execs S (e # es) = (case sys_exec S e of None \<Rightarrow> None | Some S1 \<Rightarrow> sys_execs S1 es)"

lemma sys_execs_run: "sys_execs S es = Some S' \<longleftrightarrow> run sys_step S es S'"
  by (induction es arbitrary: S) (auto simp: run_Cons_iff sys_step_def split: option.splits)

definition sys_init :: sys where
  "sys_init = \<lparr>srv = NewServer, conns = []\<rparr>"

section \<open>What a relay holds\<close>

text \<open>The relay has a handle it has not released; it was told that it may go on.\<close>

definition holding :: "relay \<Rightarrow> bool" where
  "holding r \<longleftrightarrow> rhandle r \<noteq> None \<and> (case rpc r of PLeave e f \<Rightarrow> False | PDone \<Rightarrow> False | _ \<Rightarrow> True)"

definition in_relay :: "relay \<Rightarrow> bool" where
  "in_relay r \<longleftrightarrow> (case rpc r of PConnect \<Rightarrow> True | PCopy a b \<Rightarrow> True | PDrain a b \<Rightarrow> True | PFinish \<Rightarrow> True
     | PReturn e \<Rightarrow> up r \<noteq> None | _ \<Rightarrow> False)"

definition ticket :: "qid \<Rightarrow> relay \<Rightarrow> (hid \<times> bool) option" where
  "ticket q r = (if holding r \<and> rqueue r = Some q then Some (the (rhandle r), in_relay r) else None)"

definition tickets :: "relay list \<Rightarrow> qid \<Rightarrow> nat \<rightharpoonup> hid \<times> bool" where
  "tickets rs q i = (if i < length rs then ticket q (rs ! i) else None)"

text \<open>What its fields are at each point.\<close>

definition relay_wf :: "nat \<Rightarrow> relay \<Rightarrow> bool" where
  "relay_wf n r \<longleftrightarrow> (rqueue r = None \<longleftrightarrow> rhandle r = None) \<and> (case rqueue r of Some q \<Rightarrow> q < n | None \<Rightarrow> True) \<and>
     (case rpc r of
        PGreet \<Rightarrow> rqueue r = None \<and> up r = None
      | PMotd \<Rightarrow> rqueue r = None \<and> up r = None
      | PRoute \<Rightarrow> rqueue r = None \<and> up r = None
      | PAcquire \<Rightarrow> rqueue r = None \<and> up r = None
      | PFirst \<Rightarrow> rqueue r \<noteq> None \<and> up r = None
      | PWait st \<Rightarrow> rqueue r \<noteq> None \<and> up r = None
      | PConnect \<Rightarrow> rqueue r \<noteq> None \<and> up r = None
      | PCopy a b \<Rightarrow> rqueue r \<noteq> None \<and> up r \<noteq> None
      | PDrain a b \<Rightarrow> rqueue r \<noteq> None \<and> up r \<noteq> None
      | PFinish \<Rightarrow> rqueue r \<noteq> None \<and> up r \<noteq> None
      | PReturn e \<Rightarrow> up r \<noteq> None \<longrightarrow> rqueue r \<noteq> None
      | PPanic f \<Rightarrow> False
      | PLeave e f \<Rightarrow> f = None
      | PDone \<Rightarrow> True)"

text \<open>The effect of one step of a relay on the queues and on its ticket.\<close>

inductive q_effect :: "qworld list \<Rightarrow> relay \<Rightarrow> qworld list \<Rightarrow> relay \<Rightarrow> bool" where
  quiet: "rqueue r' = rqueue r \<Longrightarrow> rhandle r' = rhandle r \<Longrightarrow> holding r' = holding r \<Longrightarrow> (in_relay r' \<Longrightarrow> in_relay r) \<Longrightarrow>
    q_effect h r h r'"
| acquires: "\<not> holding r \<Longrightarrow> rqueue r' = Some q \<Longrightarrow> rhandle r' = Some k \<Longrightarrow> holding r' \<Longrightarrow> \<not> in_relay r' \<Longrightarrow>
    q < length h \<Longrightarrow> qstep (h ! q) (EAcquire k) w \<Longrightarrow> q_effect h r (h[q := w]) r'"
| receives: "rqueue r = Some q \<Longrightarrow> rhandle r = Some k \<Longrightarrow> rqueue r' = Some q \<Longrightarrow> rhandle r' = Some k \<Longrightarrow> holding r \<Longrightarrow>
    holding r' \<Longrightarrow> (in_relay r' \<longrightarrow> in_relay r \<or> Ok st) \<Longrightarrow> q < length h \<Longrightarrow> qstep (h ! q) (ERecv k st) w \<Longrightarrow>
    q_effect h r (h[q := w]) r'"
| releases: "rqueue r = Some q \<Longrightarrow> rhandle r = Some k \<Longrightarrow> holding r \<Longrightarrow> \<not> holding r' \<Longrightarrow>
    q < length h \<Longrightarrow> qstep (h ! q) (ERelease k) w \<Longrightarrow> q_effect h r (h[q := w]) r'"

definition tickets_all :: "qworld list \<Rightarrow> relay list \<Rightarrow> bool" where
  "tickets_all h rs \<longleftrightarrow> (\<forall>q < length h. queue_wf (h ! q) \<and> slots.tickets_ok (h ! q) (tickets rs q))"

lemma tickets_update: "i < length rs \<Longrightarrow> tickets (rs[i := r]) q = (tickets rs q)(i := ticket q r)"
  by (auto simp: tickets_def fun_eq_iff)

lemma tickets_snoc: "ticket q r = None \<Longrightarrow> tickets (rs @ [r]) q = tickets rs q"
  by (auto simp: tickets_def fun_eq_iff nth_append less_Suc_eq)

lemma ticket_other: "rqueue r \<noteq> Some q \<Longrightarrow> ticket q r = None"
  by (simp add: ticket_def)

lemma tickets_same: "i < length rs \<Longrightarrow> tickets rs q i = ticket q r \<Longrightarrow> tickets (rs[i := r]) q = tickets rs q"
  by (simp add: tickets_update fun_upd_idem)

text \<open>Each of the four effects keeps the tickets in order: the laws of the queue's interface.\<close>

lemma q_effect_tickets:
  assumes "q_effect h (rs ! i) h' r'" "tickets_all h rs" "i < length rs"
  shows "tickets_all h' (rs[i := r']) \<and> length h' = length h"
  using assms
proof (cases rule: q_effect.cases)
  case quiet
  have "slots.tickets_ok (h ! q) (tickets (rs[i := r']) q)" if "q < length h" for q
  proof -
    have ok: "slots.tickets_ok (h ! q) (tickets rs q)" using assms(2) that by (simp add: tickets_all_def)
    show ?thesis
    proof (cases "ticket q (rs ! i)")
      case None
      then have "ticket q r' = None" using quiet by (auto simp: ticket_def split: if_splits)
      with ok None assms(3) show ?thesis by (simp add: tickets_same tickets_def)
    next
      case (Some x)
      obtain k a where x: "x = (k, a)" by (cases x)
      with Some quiet have "ticket q r' = Some (k, in_relay r')" "in_relay r' \<longrightarrow> a"
        by (auto simp: ticket_def split: if_splits)
      with slots.tickets_lower [OF ok, of i k a "in_relay r'"] Some x assms(3) show ?thesis
        by (simp add: tickets_update) (simp add: tickets_def)
    qed
  qed
  with quiet assms(2) show ?thesis by (simp add: tickets_all_def)
next
  case (acquires q k w)
  have wf: "queue_wf (h ! q)" and ok: "slots.tickets_ok (h ! q) (tickets rs q)"
    using assms(2) acquires by (simp_all add: tickets_all_def)
  have none: "ticket p (rs ! i) = None" for p using acquires by (simp add: ticket_def)
  have "slots.tickets_ok w ((tickets rs q)(i \<mapsto> (k, False)))"
    by (rule slots.tickets_acquire [OF wf ok acquires(8)]) (simp add: tickets_def none)
  moreover have "ticket q r' = Some (k, False)" using acquires by (simp add: ticket_def)
  moreover have "p \<noteq> q \<Longrightarrow> tickets (rs[i := r']) p = tickets rs p" for p
    by (rule tickets_same [OF assms(3)]) (use acquires none assms(3) in \<open>simp add: tickets_def ticket_other\<close>)
  ultimately show ?thesis
    using assms(2,3) acquires slots.wf_step [OF wf acquires(8)]
    by (auto simp: tickets_all_def nth_list_update tickets_update)
next
  case (receives q k st w)
  have wf: "queue_wf (h ! q)" and ok: "slots.tickets_ok (h ! q) (tickets rs q)"
    using assms(2) receives by (simp_all add: tickets_all_def)
  have t: "ticket q (rs ! i) = Some (k, in_relay (rs ! i))" "ticket q r' = Some (k, in_relay r')"
    using receives by (simp_all add: ticket_def)
  have "slots.tickets_ok w ((tickets rs q)(i \<mapsto> (k, in_relay r')))"
    by (rule slots.tickets_recv [OF wf ok receives(10)]) (use t receives assms(3) in \<open>simp_all add: tickets_def\<close>)
  moreover have "p \<noteq> q \<Longrightarrow> tickets (rs[i := r']) p = tickets rs p" for p
    by (rule tickets_same [OF assms(3)]) (use receives assms(3) in \<open>simp add: tickets_def ticket_other\<close>)
  ultimately show ?thesis
    using assms(2,3) receives slots.wf_step [OF wf receives(10)] t
    by (auto simp: tickets_all_def nth_list_update tickets_update)
next
  case (releases q k w)
  have wf: "queue_wf (h ! q)" and ok: "slots.tickets_ok (h ! q) (tickets rs q)"
    using assms(2) releases by (simp_all add: tickets_all_def)
  have t: "ticket q (rs ! i) = Some (k, in_relay (rs ! i))" "ticket p r' = None" for p
    using releases by (simp_all add: ticket_def)
  have "slots.tickets_ok w ((tickets rs q)(i := None))"
    by (rule slots.tickets_release [OF wf ok releases(7)]) (use t assms(3) in \<open>simp add: tickets_def\<close>)
  moreover have "p \<noteq> q \<Longrightarrow> tickets (rs[i := r']) p = tickets rs p" for p
    by (rule tickets_same [OF assms(3)]) (use releases t assms(3) in \<open>simp add: tickets_def ticket_other\<close>)
  ultimately show ?thesis
    using assms(2,3) releases slots.wf_step [OF wf releases(7)] t
    by (auto simp: tickets_all_def nth_list_update tickets_update)
qed

section \<open>One step of a relay\<close>

definition routing :: "Server \<Rightarrow> upstreamConfig list \<times> (string \<times> Target list) list \<times> (string \<rightharpoonup> qid)" where
  "routing s = (supstreams s, smodules s, upstreamQueues s)"

lemma routing_simps [simp]:
  "routing (logAccess m s) = routing s" "routing (logError m s) = routing s" "routing (upd_info i f s) = routing s"
  "routing (SetModule i m s) = routing s" "routing (SetUpstream i m s) = routing s"
  "qheap (logAccess m s) = qheap s" "qheap (logError m s) = qheap s" "qheap (upd_info i f s) = qheap s"
  "qheap (SetModule i m s) = qheap s" "qheap (SetUpstream i m s) = qheap s"
  "routing (log_copy env d x s) = routing s" "qheap (log_copy env d x s) = qheap s"
  "routing (log_close env d y s) = routing s" "qheap (log_close env d y s) = qheap s"
  by (simp_all add: routing_def logAccess_def logError_def upd_info_def SetModule_def SetUpstream_def log_copy_def log_close_def
      split: option.splits)

text \<open>
  What a step keeps: the routing state; the relay is in order afterwards; its effect on the
  queues is one of the four.
\<close>

definition step_ok :: "Server \<Rightarrow> relay \<Rightarrow> Server \<Rightarrow> relay \<Rightarrow> bool" where
  "step_ok s r s' r' \<longleftrightarrow> routing s' = routing s \<and> q_effect (qheap s) r (qheap s') r' \<and> relay_wf (length (qheap s)) r'"

lemma step_okI:
  "routing s' = routing s \<Longrightarrow> q_effect (qheap s) r (qheap s') r' \<Longrightarrow> relay_wf (length (qheap s)) r' \<Longrightarrow> step_ok s r s' r'"
  by (simp add: step_ok_def)

lemma quiet_ok:
  assumes "routing s' = routing s" "qheap s' = qheap s" "rqueue r' = rqueue r" "rhandle r' = rhandle r" "holding r' = holding r"
    "in_relay r' \<Longrightarrow> in_relay r" "relay_wf (length (qheap s)) r'"
  shows "step_ok s r s' r'"
  using assms by (auto intro!: step_okI quiet)

lemmas relay_defs = relay_wf_def holding_def in_relay_def

lemma greet_ok:
  assumes "rpc r = PGreet" "relay_wf n r" "step_greet s r = Some r'" "n = length (qheap s)"
  shows "step_ok s r s r'"
  by (rule quiet_ok)
    (use assms in \<open>auto simp: step_greet_def relay_defs split: option.splits sum.splits\<close>)

lemma motd_ok:
  assumes "rpc r = PMotd" "relay_wf (length (qheap s)) r"
  shows "step_ok s r s (step_motd s r)"
  by (rule quiet_ok)
    (use assms in \<open>auto simp: step_motd_def relay_defs split: prod.splits option.splits if_splits\<close>)

lemma choose_less_length: "ts \<noteq> [] \<Longrightarrow> chooseTargetByClientIP p (length ts) < length ts"
proof (cases "length ts < 2 ^ 32")
  case True
  assume "ts \<noteq> []"
  then show ?thesis using choose_less True by simp
next
  case False
  assume "ts \<noteq> []"
  have "unat (x :: hash32) < 2 ^ 32" for x using unsigned_less [of x] by simp
  then have "unat (x :: hash32) < length ts" for x using False by (meson le_trans not_le)
  then show ?thesis using \<open>ts \<noteq> []\<close> by (auto simp: chooseTargetByClientIP_def split: option.splits)
qed

lemma route_ok:
  assumes "rpc r = PRoute" "relay_wf (length (qheap s)) r" "routes_ok s" "step_route s r = (s', r')"
  shows "step_ok s r s' r'"
proof (cases "length (request r) = 1")
  case True
  show ?thesis
    by (rule quiet_ok) (use assms True in \<open>auto simp: step_route_def relay_defs Let_def split: prod.splits\<close>)
next
  case False
  let ?m = "butlast (request r)"
  have g: "getTargetsForModule (SetModule (ridx r) ?m s) ?m = getTargetsForModule s ?m"
    by (simp add: getTargetsForModule_def SetModule_def upd_info_def)
  show ?thesis
  proof (cases "getTargetsForModule s ?m")
    case None
    have "routing (x\<lparr>unknownModuleCount := y\<rparr>) = routing x" for x y by (simp add: routing_def)
    then show ?thesis
      by (intro quiet_ok) (use assms False None in \<open>auto simp: step_route_def relay_defs Let_def g split: prod.splits\<close>)
  next
    case (Some ts)
    then have "ts \<noteq> []" using assms(3)
      by (auto simp: routes_ok_def getTargetsForModule_def buildModuleTargets_lookup split: if_splits)
    then have "\<not> length ts \<le> chooseTargetByClientIP (ParseIP (client_ip r)) (length ts)" using choose_less_length by (simp add: not_le)
    then show ?thesis
      by (intro quiet_ok) (use assms False Some in \<open>auto simp: step_route_def relay_defs Let_def g\<close>)
  qed
qed

lemma acquire_ok:
  assumes "rpc r = PAcquire" "relay_wf (length (qheap s)) r" "queues_ok s" "step_acquire s r = (s', r')"
  shows "step_ok s r s' r'"
proof (cases "upstreamQueues s (Upstream (rtarget r))")
  case None
  then show ?thesis
    by (intro quiet_ok) (use assms in \<open>auto simp: step_acquire_def getQueueForUpstream_def relay_defs\<close>)
next
  case (Some q)
  then have q: "q < length (qheap s)" "queue_inv (qheap s ! q)" using assms(3) by (auto simp: queues_ok_def)
  obtain k w where a: "Acquire (qheap s ! q) = Inr (k, w)" using Acquire_Inr [OF q(2)] by blast
  then have s': "s' = s\<lparr>qheap := (qheap s)[q := w]\<rparr>" "r' = r\<lparr>rqueue := Some q, rhandle := Some k, rpc := PFirst\<rparr>"
    using assms(4) Some by (simp_all add: step_acquire_def getQueueForUpstream_def)
  show ?thesis
  proof (rule step_okI)
    show "routing s' = routing s" by (simp add: s' routing_def)
    show "q_effect (qheap s) r (qheap s') r'"
      using assms(1,2) a q(1) by (simp add: s') (rule acquires [where k = k]; auto simp: relay_defs)
    show "relay_wf (length (qheap s)) r'" using q(1) assms(1,2) by (simp add: s' relay_defs)
  qed
qed

lemma send_notice_ok:
  assumes "relay_wf n r" "rqueue r \<noteq> None" "up r = None"
  shows "relay_wf n (send_notice s r msg st)" "rqueue (send_notice s r msg st) = rqueue r"
    "rhandle (send_notice s r msg st) = rhandle r" "\<not> in_relay (send_notice s r msg st)" "holding (send_notice s r msg st)"
  using assms by (auto simp: send_notice_def relay_defs split: prod.splits option.splits)

lemma receive_ok:
  assumes "relay_wf (length (qheap s)) r" "step_receive s r = Some (s', r')"
  shows "step_ok s r s' r'"
proof -
  obtain st q w where rc: "receive s r = Some (st, q, w)" using assms(2) by (auto simp: step_receive_def split: option.splits)
  then obtain k where k: "rqueue r = Some q" "rhandle r = Some k" "Recv k (qheap s ! q) = Some (st, w)"
    by (auto simp: receive_def split: option.splits)
  let ?s = "s\<lparr>qheap := (qheap s)[q := w]\<rparr>"
  have q: "q < length (qheap s)" using assms(1) k by (simp add: relay_wf_def)
  have pcs: "rpc r = PFirst \<and> on_first ?s r w st = (s', r') \<or> (\<exists>old. rpc r = PWait old) \<and> s' = ?s \<and> r' = on_next ?s r st"
    using assms(2) rc by (auto simp: step_receive_def Let_def split: pc.splits)
  have up: "up r = None" "rqueue r \<noteq> None" "holding r" "\<not> in_relay r" using assms(1) pcs k by (auto simp: relay_defs)
  note N = send_notice_ok [OF assms(1) up(2,1)]
  have res: "routing s' = routing s \<and> qheap s' = (qheap s)[q := w] \<and> rqueue r' = Some q \<and> rhandle r' = Some k \<and> holding r' \<and>
      (in_relay r' \<longrightarrow> Ok st) \<and> relay_wf (length (qheap s)) r'"
    using pcs
  proof
    assume p: "rpc r = PFirst \<and> on_first ?s r w st = (s', r')"
    have upd: "routing (x\<lparr>supstreamCounters := y\<rparr>) = routing x" "routing (x\<lparr>qheap := z\<rparr>) = routing x" for x y z
      by (simp_all add: routing_def)
    consider (full) "Full st" | (wait) "\<not> Full st" "\<not> Ok st" | (ok) "\<not> Full st" "Ok st" by blast
    then show ?thesis
    proof cases
      case full
      with p k up assms(1) show ?thesis
        by (auto simp: on_first_def Let_def upd relay_defs split: prod.splits)
    next
      case wait
      with p k N show ?thesis by (auto simp: on_first_def upd)
    next
      case ok
      with p k up assms(1) show ?thesis by (auto simp: on_first_def upd relay_defs)
    qed
  next
    assume p: "(\<exists>old. rpc r = PWait old) \<and> s' = ?s \<and> r' = on_next ?s r st"
    show ?thesis
    proof (cases "Ok st")
      case True
      with p k up assms(1) show ?thesis by (auto simp: on_next_def relay_defs routing_def)
    next
      case False
      with p k N show ?thesis by (auto simp: on_next_def routing_def)
    qed
  qed
  show ?thesis
  proof (rule step_okI)
    show "q_effect (qheap s) r (qheap s') r'"
      using res k(3) q up(3) by (auto intro!: receives [of r q k, OF k(1,2)])
  qed (use res in auto)
qed

lemma tick_ok:
  assumes "relay_wf (length (qheap s)) r" "step_tick s r = Some r'"
  shows "step_ok s r s r'"
proof -
  obtain st where st: "rpc r = PWait st" "r' = send_notice s r (position_notice st) st"
    using assms(2) by (auto simp: step_tick_def split: pc.splits)
  then have "rqueue r \<noteq> None" "up r = None" "holding r" using assms(1) by (auto simp: relay_defs)
  then show ?thesis using send_notice_ok [OF assms(1), of s "position_notice st" st] st by (intro quiet_ok) auto
qed

lemma connect_ok:
  assumes "rpc r = PConnect" "relay_wf (length (qheap s)) r" "step_connect env s r = Some (s', r')"
  shows "step_ok s r s' r'"
proof -
  have upd: "routing (x\<lparr>supstreamCounters := y\<rparr>) = routing x" for x y by (simp add: routing_def)
  show ?thesis
  proof (cases "dialContextTCPOrUnix (rdial env) (Addr (rtarget r))")
    case (Inl e)
    then show ?thesis
      by (intro quiet_ok) (use assms in \<open>auto simp: step_connect_def relay_defs Let_def upd\<close>)
  next
    case (Inr u)
    with assms(3) obtain x d1 u1 where h: "upstream_hello (ReadTimeout s) (WriteTimeout s) r u = Some (x, d1, u1)"
      by (auto simp: step_connect_def Let_def split: option.splits)
    show ?thesis
      by (cases x; intro quiet_ok) (use assms Inr h in \<open>auto simp: step_connect_def relay_defs Let_def\<close>)
  qed
qed

lemma flags_Some: "flags p = Some (a, b) \<longleftrightarrow> p = PCopy a b \<or> p = PDrain a b"
  by (cases p) (auto simp: flags_def)

lemma set_flags_ok:
  assumes "flags (rpc r) = Some x" "relay_wf n r" "rqueue r' = rqueue r" "rhandle r' = rhandle r" "up r' \<noteq> None"
    "rpc r' = set_flags (rpc r) a b"
  shows "relay_wf n r'" "holding r' = holding r" "in_relay r"
  using assms by (cases "rpc r"; auto simp: flags_def relay_defs)+

lemma copy_up_ok:
  assumes "relay_wf (length (qheap s)) r" "step_copy_up env s r = Some (s', r')"
  shows "step_ok s r s' r'"
proof -
  obtain b u where f: "flags (rpc r) = Some (False, b)" "up r = Some u"
    using assms(2) by (auto simp: step_copy_up_def split: option.splits bool.splits)
  obtain n e d1 u1 where c: "copy_round (down r) u = ((n, e), d1, u1)" by (metis surj_pair)
  have r': "r' = r\<lparr>down := d1, up := Some u1, rpc := set_flags (rpc r) (e \<noteq> None) b\<rparr>"
    and s': "s' = log_copy env ''downstream to upstream'' e (upd_info (ridx r) (\<lambda>c. c\<lparr>ReceivedBytes := ReceivedBytes c + of_nat n\<rparr>) s)"
    using assms(2) f c by (simp_all add: step_copy_up_def)
  show ?thesis using set_flags_ok [OF f(1) assms(1), of r'] by (intro quiet_ok) (simp_all add: r' s')
qed

lemma copy_down_ok:
  assumes "relay_wf (length (qheap s)) r" "step_copy_down env s r = Some (s', r')"
  shows "step_ok s r s' r'"
proof -
  obtain a u where f: "flags (rpc r) = Some (a, False)" "up r = Some u"
    using assms(2) by (auto simp: step_copy_down_def split: option.splits bool.splits)
  obtain n e u1 d1 where c: "copy_round u (down r) = ((n, e), u1, d1)" by (metis surj_pair)
  have r': "r' = r\<lparr>down := d1, up := Some u1, rpc := set_flags (rpc r) a (e \<noteq> None)\<rparr>"
    and s': "s' = log_copy env ''upstream to downstream'' e (upd_info (ridx r) (\<lambda>c. c\<lparr>SentBytes := SentBytes c + of_nat n\<rparr>) s)"
    using assms(2) f c by (simp_all add: step_copy_down_def)
  show ?thesis using set_flags_ok [OF f(1) assms(1), of r'] by (intro quiet_ok) (simp_all add: r' s')
qed

lemma closed_ok:
  assumes "relay_wf (length (qheap s)) r"
  shows "step_received_closed env res s r = Some (s', r') \<Longrightarrow> step_ok s r s' r'"
    "step_sent_closed env res s r = Some (s', r') \<Longrightarrow> step_ok s r s' r'"
proof -
  show "step_ok s r s' r'" if st: "step_received_closed env res s r = Some (s', r')"
  proof -
    obtain a u where p: "rpc r = PCopy a True" "up r = Some u"
      using st by (auto simp: step_received_closed_def split: pc.splits option.splits bool.splits)
    with st assms show ?thesis
      by (intro quiet_ok) (auto simp: step_received_closed_def relay_defs split: prod.splits)
  qed
  show "step_ok s r s' r'" if st: "step_sent_closed env res s r = Some (s', r')"
  proof -
    obtain b u where p: "rpc r = PCopy True b" "up r = Some u"
      using st by (auto simp: step_sent_closed_def split: pc.splits option.splits bool.splits)
    with st assms show ?thesis
      by (intro quiet_ok) (auto simp: step_sent_closed_def relay_defs split: prod.splits)
  qed
qed

lemma finish_ok:
  assumes "rpc r = PFinish" "relay_wf (length (qheap s)) r" "step_finish env s r = (s', r')"
  shows "step_ok s r s' r'"
proof (rule quiet_ok)
  show "routing s' = routing s" using assms(3) by (auto simp: step_finish_def Let_def routing_def logAccess_def)
  show "qheap s' = qheap s" using assms(3) by (auto simp: step_finish_def Let_def)
qed (use assms in \<open>auto simp: step_finish_def Let_def relay_defs\<close>)

lemma return_ok:
  assumes "rpc r = PReturn e" "relay_wf (length (qheap s)) r" "tickets_all (qheap s) rs" "i < length rs" "rs ! i = r"
    and "step_return s r e None = (s', r')"
  shows "step_ok s r s' r'"
proof (cases "rqueue r")
  case None
  then have "rhandle r = None" using assms(2) by (simp add: relay_wf_def)
  with None assms(1,2,6) show ?thesis by (intro quiet_ok) (auto simp: step_return_def relay_defs Let_def)
next
  case (Some q)
  then obtain k where k: "rhandle r = Some k" and q: "q < length (qheap s)" using assms(2) by (auto simp: relay_wf_def)
  have wf: "queue_wf (qheap s ! q)" and ok: "slots.tickets_ok (qheap s ! q) (tickets rs q)"
    using assms(3) q by (simp_all add: tickets_all_def)
  have "tickets rs q i = Some (k, in_relay r)"
    using assms(1,4,5) Some k by (simp add: tickets_def ticket_def holding_def)
  from slots.ticketD(1) [OF ok this] have live: "k < length (handles (qheap s ! q))" "\<not> released (handles (qheap s ! q) ! k)"
    by (simp_all add: live_handles_def)
  obtain w where w: "Release k (qheap s ! q) = Inr w"
    using Release_Inr [OF _ live] wf by (auto simp: queue_wf_def)
  then have s': "s' = s\<lparr>qheap := (qheap s)[q := w]\<rparr>" "r' = r\<lparr>up := map_option conn_close (up r), rpc := PLeave e None\<rparr>"
    using assms(6) Some k by (simp_all add: step_return_def)
  show ?thesis
  proof (rule step_okI)
    show "routing s' = routing s" by (simp add: s' routing_def)
    show "q_effect (qheap s) r (qheap s') r'"
      using assms(1) w q by (simp add: s') (rule releases [OF Some k]; simp add: relay_defs k)
    show "relay_wf (length (qheap s)) r'" using assms(2) by (simp add: s' relay_defs)
  qed
qed

lemma leave_ok:
  assumes "rpc r = PLeave e f" "relay_wf (length (qheap s)) r" "step_leave env s r e f = (s', r')"
  shows "step_ok s r s' r'"
proof (rule quiet_ok)
  show "routing s' = routing s" "qheap s' = qheap s"
    using assms(3) by (auto simp: step_leave_def Let_def routing_def logError_def split: option.splits)
qed (use assms in \<open>auto simp: step_leave_def Let_def relay_defs\<close>)

text \<open>Every step of a relay, in a server whose routing state and tickets are in order.\<close>

lemma relay_step_ok:
  assumes "relay_exec env (s, r) e = Some (s', r')" "relay_wf (length (qheap s)) r" "routes_ok s" "queues_ok s"
    and "tickets_all (qheap s) rs" "i < length rs" "rs ! i = r"
  shows "step_ok s r s' r'"
  using assms(1)
proof (cases rule: relay_exec_cases)
  case drained
  then have "step_ok s r s (r\<lparr>rpc := PFinish\<rparr>)" using assms(2) by (intro quiet_ok) (auto simp: relay_defs)
  with drained show ?thesis by simp
next
  case panics
  with assms(2) show ?thesis by (simp add: relay_wf_def)
next
  case greet
  then show ?thesis using greet_ok [OF _ assms(2) _ refl] by blast
next
  case motd
  then show ?thesis using motd_ok [OF _ assms(2)] by blast
next
  case route
  then show ?thesis using route_ok [OF _ assms(2,3)] by blast
next
  case acquire
  then show ?thesis using acquire_ok [OF _ assms(2,4)] by blast
next
  case connect
  then show ?thesis using connect_ok [OF _ assms(2)] by blast
next
  case finish
  then show ?thesis using finish_ok [OF _ assms(2)] by blast
next
  case returns
  then show ?thesis using return_ok [OF _ assms(2,5-7)] by blast
next
  case leave
  then show ?thesis using leave_ok [OF _ assms(2)] by blast
next
  case status
  then show ?thesis using receive_ok [OF assms(2)] by blast
next
  case tick
  then show ?thesis using tick_ok [OF assms(2)] by blast
next
  case up_round
  then show ?thesis using copy_up_ok [OF assms(2)] by blast
next
  case down_round
  then show ?thesis using copy_down_ok [OF assms(2)] by blast
next
  case received_closed
  then show ?thesis using closed_ok(1) [OF assms(2)] by blast
next
  case sent_closed
  then show ?thesis using closed_ok(2) [OF assms(2)] by blast
qed

section \<open>The invariant of the system\<close>

definition sys_inv :: "sys \<Rightarrow> bool" where
  "sys_inv S \<longleftrightarrow> routes_ok (srv S) \<and> queues_ok (srv S) \<and> (\<forall>r \<in> set (conns S). relay_wf (length (qheap (srv S))) r) \<and>
     tickets_all (qheap (srv S)) (conns S)"

text \<open>The keys of a Go map are different: of a configuration that is loaded too.\<close>

definition go_event :: "sevent \<Rightarrow> bool" where
  "go_event e \<longleftrightarrow> (case e of SReload env c openLog \<Rightarrow> wf_map (Upstreams c) | _ \<Rightarrow> True)"

lemma routing_ok:
  assumes "routing s' = routing s"
  shows "routes_ok s' = routes_ok s"
    "queues_ok s \<Longrightarrow> length (qheap s') = length (qheap s) \<Longrightarrow> \<forall>w \<in> set (qheap s'). queue_inv w \<Longrightarrow> queues_ok s'"
  using assms by (auto simp: routing_def routes_ok_def queues_ok_def)

lemma tickets_all_inv: "tickets_all h rs \<Longrightarrow> \<forall>w \<in> set h. queue_inv w"
  by (auto simp: tickets_all_def queue_wf_def in_set_conv_nth)

lemma sys_inv_init: "sys_inv sys_init"
  using NewServer_ok by (simp add: sys_inv_def sys_init_def tickets_all_def) (simp add: NewServer_def Let_def)

lemma relay_wf_mono: "relay_wf n r \<Longrightarrow> n \<le> m \<Longrightarrow> relay_wf m r"
  by (auto simp: relay_wf_def split: option.splits)

lemma accept_facts:
  assumes "accept now c s = (s', r)"
  shows "routing s' = routing s" "qheap s' = qheap s" "relay_wf n r" "ticket q r = None" "rpc r = PGreet" "up r = None"
  using assms by (auto simp: accept_def Let_def routing_def relay_wf_def ticket_def)

lemma sys_inv_accept:
  assumes "sys_inv S" "sys_exec S (SAccept now c) = Some S'"
  shows "sys_inv S'"
proof -
  obtain s r where a: "accept now c (srv S) = (s, r)" "S' = \<lparr>srv = s, conns = conns S @ [r]\<rparr>"
    using assms(2) by (auto split: prod.splits)
  note F = accept_facts [OF a(1)]
  have "tickets (conns S @ [r]) q = tickets (conns S) q" for q by (rule tickets_snoc) (rule F(4))
  then have "tickets_all (qheap s) (conns S')"
    using assms(1) F(2) by (simp add: a(2) sys_inv_def tickets_all_def)
  moreover have "queues_ok s" using assms(1) routing_ok(2) [OF F(1)] F(2) by (simp add: sys_inv_def queues_ok_def)
  ultimately show ?thesis using assms(1) F routing_ok(1) [OF F(1)] by (simp add: sys_inv_def a(2))
qed

lemma sys_relay_step:
  assumes "sys_inv S" "sys_exec S (SRelay i env e) = Some S'"
  obtains s' r' where "i < length (conns S)" "relay_exec env (srv S, conns S ! i) e = Some (s', r')"
    "S' = \<lparr>srv = s', conns = (conns S)[i := r']\<rparr>" "step_ok (srv S) (conns S ! i) s' r'"
proof -
  have i: "i < length (conns S)" using assms(2) by (auto split: if_splits)
  with assms(2) obtain s' r' where x: "relay_exec env (srv S, conns S ! i) e = Some (s', r')"
    "S' = \<lparr>srv = s', conns = (conns S)[i := r']\<rparr>" by auto
  have "step_ok (srv S) (conns S ! i) s' r'"
    by (rule relay_step_ok [OF x(1) _ _ _ _ i refl]) (use assms(1) i in \<open>simp_all add: sys_inv_def\<close>)
  with i x that show thesis by blast
qed

lemma sys_inv_relay:
  assumes "sys_inv S" "sys_exec S (SRelay i env e) = Some S'"
  shows "sys_inv S'"
proof -
  obtain s' r' where x: "i < length (conns S)" "S' = \<lparr>srv = s', conns = (conns S)[i := r']\<rparr>" "step_ok (srv S) (conns S ! i) s' r'"
    by (rule sys_relay_step [OF assms])
  note ok = x(3) [unfolded step_ok_def]
  have T: "tickets_all (qheap s') ((conns S)[i := r']) \<and> length (qheap s') = length (qheap (srv S))"
    using q_effect_tickets [of "qheap (srv S)" "conns S" i "qheap s'" r'] ok assms(1) x(1) by (simp add: sys_inv_def)
  then have "\<forall>w \<in> set (qheap s'). queue_inv w" using tickets_all_inv by blast
  then have "queues_ok s'" using routing_ok(2) [of s' "srv S"] ok assms(1) T by (simp add: sys_inv_def)
  moreover have "\<forall>r \<in> set ((conns S)[i := r']). relay_wf (length (qheap s')) r"
    using assms(1) ok T set_update_subset_insert [of "conns S" i r'] by (auto simp: sys_inv_def)
  ultimately show ?thesis using T ok assms(1) routing_ok(1) [of s' "srv S"] by (simp add: sys_inv_def x(2))
qed

lemma sys_inv_reload:
  assumes "sys_inv S" "sys_exec S (SReload env c openLog) = Some S'" "wf_map (Upstreams c)"
  shows "sys_inv S'"
proof -
  obtain r s where l: "loadConfig env c openLog (srv S) = Some (r, s)" "S' = S\<lparr>srv := s\<rparr>" using assms(2) by auto
  have ok: "routes_ok s" "queues_ok s"
  proof -
    have "routes_ok s \<and> queues_ok s"
    proof (cases r)
      case None
      have "queues_ok (srv S)" using assms(1) by (simp add: sys_inv_def)
      from loaded_ok(1,2) [OF l(1) [unfolded None] this assms(3)] show ?thesis by blast
    next
      case (Some e)
      have "core s = core (srv S)" using l(1) by (cases rule: loadConfig_cases) (use Some in auto)
      from routes_core(1,2) [OF this] assms(1) show ?thesis by (simp add: sys_inv_def)
    qed
    then show "routes_ok s" "queues_ok s" by simp_all
  qed
  have q: "queues_ok (srv S)" and t: "tickets_all (qheap (srv S)) (conns S)"
    and w: "\<forall>r \<in> set (conns S). relay_wf (length (qheap (srv S))) r" using assms(1) by (simp_all add: sys_inv_def)
  note H = loadConfig_heap [OF l(1) q]
  have "queue_wf (qheap s ! i) \<and> slots.tickets_ok (qheap s ! i) (tickets (conns S) i)" if i: "i < length (qheap s)" for i
  proof (cases "i < length (qheap (srv S))")
    case True
    then have wf: "queue_wf (qheap (srv S) ! i)" "slots.tickets_ok (qheap (srv S) ! i) (tickets (conns S) i)"
      using t by (simp_all add: tickets_all_def)
    from H(2) [OF True] show ?thesis
    proof (elim disjE exE)
      fix m k assume n: "qheap s ! i = SetMax m k (qheap (srv S) ! i)"
      have st: "qstep (qheap (srv S) ! i) (ESetMax m k) (qheap s ! i)" by (simp add: n)
      show ?thesis using slots.wf_step [OF wf(1) st] slots.tickets_setmax [OF wf(1,2) st] by blast
    qed (use wf in simp)
  next
    case False
    from H(3) [OF i this] obtain m k where n: "qheap s ! i = New m k" by blast
    have "tickets (conns S) i j = None" for j
      using w False by (auto simp: tickets_def ticket_def relay_wf_def all_set_conv_all_nth)
    then have "tickets (conns S) i = Map.empty" by (simp add: fun_eq_iff)
    moreover have "live_handles (New m k) = {}" by (simp add: live_handles_def New_def)
    ultimately show ?thesis using slots.tickets_empty queue_wf_New n by simp
  qed
  then have "tickets_all (qheap s) (conns S)" by (simp add: tickets_all_def)
  with ok w relay_wf_mono H(1) l(2) show ?thesis by (auto simp: sys_inv_def)
qed

lemma sys_step_inv: "sys_inv S \<Longrightarrow> sys_step S e S' \<Longrightarrow> go_event e \<Longrightarrow> sys_inv S'"
  unfolding sys_step_def
  by (cases e; hypsubst?; (erule (1) sys_inv_accept | erule (1) sys_inv_relay | erule (1) sys_inv_reload; simp add: go_event_def))

lemma run_sys_inv:
  assumes "run sys_step S es S'" "sys_inv S" "list_all go_event es"
  shows "sys_inv S'"
  using assms(1,2) by (rule run_invariant) (use assms(3) sys_step_inv in \<open>auto simp: list_all_iff\<close>)

lemma reach_sys_inv: "run sys_step sys_init es S \<Longrightarrow> list_all go_event es \<Longrightarrow> sys_inv S"
  using run_sys_inv sys_inv_init by blast

end
