(* ===== verification/SystemInv.thy ===== *)
theory SystemInv
  imports System
begin

text \<open>
  Further invariants of the system: how many relays of an upstream hold a slot of its queue, and
  what the counters and the table of connections say.
\<close>

section \<open>Which queue a relay is in\<close>

lemma send_notice_frame [simp]:
  "rqueue (send_notice s r m st) = rqueue r" "rtarget (send_notice s r m st) = rtarget r" "ridx (send_notice s r m st) = ridx r"
  "rpc (send_notice s r m st) \<noteq> PDone"
  by (simp_all add: send_notice_def split: prod.splits option.splits)

lemma on_next_frame [simp]:
  "rqueue (on_next s r st) = rqueue r" "rtarget (on_next s r st) = rtarget r" "ridx (on_next s r st) = ridx r"
  "rpc (on_next s r st) \<noteq> PDone"
  by (simp_all add: on_next_def)

lemma on_first_frame:
  assumes "on_first s r w st = (s', r')"
  shows "rqueue r' = rqueue r" "rtarget r' = rtarget r" "ridx r' = ridx r" "rpc r' \<noteq> PDone"
  using assms by (auto simp: on_first_def Let_def split: prod.splits if_splits)

text \<open>
  A relay stays in the queue it is in, and enters the one its target's upstream has at that time.
\<close>

definition queue_kept :: "Server \<Rightarrow> relay \<Rightarrow> relay \<Rightarrow> bool" where
  "queue_kept s r r' \<longleftrightarrow> rqueue r' \<noteq> None \<longrightarrow>
     rtarget r' = rtarget r \<and> (rqueue r' = rqueue r \<or> rqueue r' = upstreamQueues s (Upstream (rtarget r)))"

lemma queue_keptI: "rqueue r' = rqueue r \<Longrightarrow> rtarget r' = rtarget r \<Longrightarrow> queue_kept s r r'"
  by (simp add: queue_kept_def)

lemma receive_frame:
  assumes "step_receive s r = Some (s', r')"
  shows "rqueue r' = rqueue r" "rtarget r' = rtarget r" "ridx r' = ridx r" "rpc r' \<noteq> PDone" "rpc r \<noteq> PDone"
  using assms on_first_frame by (auto simp: step_receive_def Let_def split: option.splits pc.splits)

lemma copy_frame:
  "step_copy_up env s r = Some (s', r') \<Longrightarrow> rqueue r' = rqueue r \<and> rtarget r' = rtarget r \<and> ridx r' = ridx r \<and>
     (\<exists>x. flags (rpc r) = Some x) \<and> (\<exists>a b. rpc r' = set_flags (rpc r) a b)"
  "step_copy_down env s r = Some (s', r') \<Longrightarrow> rqueue r' = rqueue r \<and> rtarget r' = rtarget r \<and> ridx r' = ridx r \<and>
     (\<exists>x. flags (rpc r) = Some x) \<and> (\<exists>a b. rpc r' = set_flags (rpc r) a b)"
  by (auto simp: step_copy_up_def step_copy_down_def split: option.splits bool.splits prod.splits; blast)+

lemma closed_frame:
  "step_received_closed env res s r = Some (s', r') \<Longrightarrow> rqueue r' = rqueue r \<and> rtarget r' = rtarget r \<and> ridx r' = ridx r \<and>
     (\<exists>a b. rpc r = PCopy a b) \<and> (\<exists>a b. rpc r' = PDrain a b)"
  "step_sent_closed env res s r = Some (s', r') \<Longrightarrow> rqueue r' = rqueue r \<and> rtarget r' = rtarget r \<and> ridx r' = ridx r \<and>
     (\<exists>a b. rpc r = PCopy a b) \<and> (\<exists>a b. rpc r' = PDrain a b)"
  by (auto simp: step_received_closed_def step_sent_closed_def split: option.splits bool.splits prod.splits pc.splits)

lemma greet_frame:
  "step_greet s r = Some r' \<Longrightarrow> rqueue r' = rqueue r \<and> rtarget r' = rtarget r \<and> ridx r' = ridx r \<and> rpc r' \<noteq> PDone"
  by (auto simp: step_greet_def split: option.splits sum.splits)

lemma motd_frame: "rqueue (step_motd s r) = rqueue r" "rtarget (step_motd s r) = rtarget r" "ridx (step_motd s r) = ridx r"
  "rpc (step_motd s r) \<noteq> PDone"
  by (auto simp: step_motd_def split: prod.splits option.splits)

lemma route_frame:
  assumes "step_route s r = (s', r')"
  shows "rqueue r' = rqueue r \<and> ridx r' = ridx r \<and> rpc r' \<noteq> PDone"
  using assms by (auto simp: step_route_def Let_def split: if_splits option.splits prod.splits)

lemma connect_frame:
  assumes "step_connect env s r = Some (s', r')"
  shows "rqueue r' = rqueue r \<and> rtarget r' = rtarget r \<and> ridx r' = ridx r \<and> rpc r' \<noteq> PDone"
  using assms by (auto simp: step_connect_def Let_def split: sum.splits option.splits)

lemma acquire_frame:
  assumes "step_acquire s r = (s', r')"
  shows "rtarget r' = rtarget r \<and> ridx r' = ridx r \<and> rpc r' \<noteq> PDone \<and>
    (rqueue r' = rqueue r \<or> rqueue r' = upstreamQueues s (Upstream (rtarget r)))"
  using assms by (auto simp: step_acquire_def getQueueForUpstream_def split: option.splits sum.splits)

lemma return_frame:
  assumes "step_return s r e f = (s', r')"
  shows "rqueue r' = rqueue r \<and> rtarget r' = rtarget r \<and> ridx r' = ridx r \<and> rpc r' \<noteq> PDone"
  using assms by (auto simp: step_return_def Let_def split: option.splits sum.splits)

lemma finish_frame:
  assumes "step_finish env s r = (s', r')"
  shows "rqueue r' = rqueue r \<and> rtarget r' = rtarget r \<and> ridx r' = ridx r \<and> rpc r' \<noteq> PDone"
  using assms by (auto simp: step_finish_def Let_def)

lemma leave_frame:
  assumes "step_leave env s r x f = (s', r')"
  shows "rqueue r' = rqueue r \<and> rtarget r' = rtarget r \<and> ridx r' = ridx r"
  using assms by (auto simp: step_leave_def Let_def)

lemma tick_frame:
  assumes "step_tick s r = Some r'"
  shows "rqueue r' = rqueue r \<and> rtarget r' = rtarget r \<and> ridx r' = ridx r \<and> rpc r' \<noteq> PDone"
  using assms by (auto simp: step_tick_def split: pc.splits)

lemma drained_frame:
  "r' = r\<lparr>rpc := PFinish\<rparr> \<Longrightarrow> rqueue r' = rqueue r \<and> rtarget r' = rtarget r \<and> ridx r' = ridx r"
  by simp

lemma relay_queue_kept:
  assumes "relay_exec env (s, r) e = Some (s', r')" "relay_wf n r"
  shows "queue_kept s r r'"
  using assms(1)
proof (cases rule: relay_exec_cases)
  case route
  then show ?thesis using route_frame assms(2) by (auto simp: queue_kept_def relay_wf_def)
next
  case acquire
  then show ?thesis using acquire_frame by (auto simp: queue_kept_def)
next
  case panics
  with assms(2) show ?thesis by (simp add: relay_wf_def)
next
  case greet
  then show ?thesis using greet_frame by (intro queue_keptI) blast+
next
  case motd
  then show ?thesis using motd_frame by (intro queue_keptI) simp_all
next
  case connect
  then show ?thesis using connect_frame by (intro queue_keptI) blast+
next
  case drained
  then show ?thesis using drained_frame by (intro queue_keptI) blast+
next
  case finish
  then show ?thesis using finish_frame by (intro queue_keptI) blast+
next
  case returns
  then show ?thesis using return_frame by (intro queue_keptI) blast+
next
  case leave
  then show ?thesis using leave_frame by (intro queue_keptI) blast+
next
  case status
  then show ?thesis using receive_frame by (intro queue_keptI) blast+
next
  case tick
  then show ?thesis using tick_frame by (intro queue_keptI) blast+
next
  case up_round
  then show ?thesis using copy_frame(1) by (intro queue_keptI) blast+
next
  case down_round
  then show ?thesis using copy_frame(2) by (intro queue_keptI) blast+
next
  case received_closed
  then show ?thesis using closed_frame(1) by (intro queue_keptI) blast+
next
  case sent_closed
  then show ?thesis using closed_frame(2) by (intro queue_keptI) blast+
qed

section \<open>The slots of one upstream\<close>

text \<open>
  A queue that is touched by a relay makes a step of its own, never a change of its limits.
\<close>

lemma q_effect_step:
  assumes "q_effect h r h' r'" "i < length h"
  shows "h' ! i = h ! i \<or> (\<exists>e. \<not> is_setmax e \<and> qstep (h ! i) e (h' ! i))"
  using assms
proof (cases rule: q_effect.cases)
  case (acquires q k w)
  then show ?thesis using assms(2) by (cases "i = q") (auto intro!: exI [of _ "EAcquire k"])
next
  case (receives q k st w)
  then show ?thesis using assms(2) by (cases "i = q") (auto intro!: exI [of _ "ERecv k st"])
next
  case (releases q k w)
  then show ?thesis using assms(2) by (cases "i = q") (auto intro!: exI [of _ "ERelease k"])
qed simp

definition capped :: "int \<Rightarrow> Queue \<Rightarrow> bool" where
  "capped B q \<longleftrightarrow> 0 < qmax q \<and> qmax q \<le> B \<and> int (length (active q)) \<le> B"

lemma capped_step:
  assumes "queue_inv w" "qstep w e w'" "\<not> is_setmax e" "capped B (que w)"
  shows "capped B (que w')"
  by (rule qstep_que_invariant [OF assms(2,1), of "capped B"])
    (use assms(3,4) in \<open>auto simp: capped_def intro: length_add_client length_drop_holder\<close>)

text \<open>
  The configurations that are loaded all have the upstream \<open>n\<close>, with a limit between 1 and \<open>B\<close>.
\<close>

definition keeps_upstream :: "string \<Rightarrow> int \<Rightarrow> sevent \<Rightarrow> bool" where
  "keeps_upstream n B e \<longleftrightarrow> (case e of
      SReload env c openLog \<Rightarrow> (case map_of (Upstreams c) n of Some v \<Rightarrow> 0 < uMaxActiveConns v \<and> uMaxActiveConns v \<le> B | None \<Rightarrow> False)
    | _ \<Rightarrow> True)"

definition in_queue_of :: "string \<Rightarrow> relay \<Rightarrow> bool" where
  "in_queue_of n r \<longleftrightarrow> rqueue r \<noteq> None \<and> Upstream (rtarget r) = n"

definition slots_inv :: "string \<Rightarrow> int \<Rightarrow> sys \<Rightarrow> bool" where
  "slots_inv n B S \<longleftrightarrow> (case upstreamQueues (srv S) n of
      None \<Rightarrow> \<forall>r \<in> set (conns S). \<not> in_queue_of n r
    | Some q \<Rightarrow> capped B (que (qheap (srv S) ! q)) \<and> (\<forall>r \<in> set (conns S). in_queue_of n r \<longrightarrow> rqueue r = Some q))"

lemma slots_inv_relay:
  assumes "sys_inv S" "sys_exec S (SRelay i env e) = Some S'" "slots_inv n B S"
  shows "slots_inv n B S'"
proof -
  obtain s' r' where x: "i < length (conns S)" "relay_exec env (srv S, conns S ! i) e = Some (s', r')"
    "S' = \<lparr>srv = s', conns = (conns S)[i := r']\<rparr>" "step_ok (srv S) (conns S ! i) s' r'"
    by (rule sys_relay_step [OF assms(1,2)])
  let ?r = "conns S ! i"
  have uq: "upstreamQueues s' = upstreamQueues (srv S)" and eff: "q_effect (qheap (srv S)) ?r (qheap s') r'"
    using x(4) by (simp_all add: step_ok_def routing_def)
  have r: "?r \<in> set (conns S)" using x(1) by simp
  have "relay_wf (length (qheap (srv S))) ?r" using assms(1) r by (simp add: sys_inv_def)
  from relay_queue_kept [OF x(2) this] have kept: "in_queue_of n r' \<Longrightarrow> in_queue_of n ?r \<and> rqueue r' = rqueue ?r \<or>
      rqueue r' = upstreamQueues (srv S) n"
    by (auto simp: queue_kept_def in_queue_of_def)
  have members: "r \<in> set ((conns S)[i := r']) \<Longrightarrow> r = r' \<or> r \<in> set (conns S)" for r
    using set_update_subset_insert [of "conns S" i r'] by blast
  show ?thesis
  proof (cases "upstreamQueues (srv S) n")
    case None
    then have "\<not> in_queue_of n ?r" using assms(3) r by (simp add: slots_inv_def)
    then have "\<not> in_queue_of n r'" using kept None by (auto simp: in_queue_of_def)
    then show ?thesis using None uq assms(3) members by (auto simp: slots_inv_def x(3))
  next
    case (Some q)
    have q: "q < length (qheap (srv S))" "queue_inv (qheap (srv S) ! q)" "capped B (que (qheap (srv S) ! q))"
      using assms(1,3) Some by (auto simp: sys_inv_def queues_ok_def slots_inv_def)
    have "capped B (que (qheap s' ! q))"
      using q_effect_step [OF eff q(1)] capped_step [OF q(2) _ _ q(3)] q(3) by auto
    moreover have "in_queue_of n r' \<Longrightarrow> rqueue r' = Some q"
      using kept Some assms(3) r by (auto simp: slots_inv_def)
    ultimately show ?thesis using Some uq assms(3) members by (auto simp: slots_inv_def x(3))
  qed
qed

lemma slots_inv_reload:
  assumes "sys_inv S" "sys_exec S (SReload env c openLog) = Some S'" "wf_map (Upstreams c)"
    "keeps_upstream n B (SReload env c openLog)" "slots_inv n B S"
  shows "slots_inv n B S'"
proof -
  obtain x s where l: "loadConfig env c openLog (srv S) = Some (x, s)" "S' = S\<lparr>srv := s\<rparr>" using assms(2) by auto
  have ok: "queues_ok (srv S)" using assms(1) by (simp add: sys_inv_def)
  show ?thesis
  proof (cases x)
    case (Some e)
    have "core s = core (srv S)" using l(1) by (cases rule: loadConfig_cases) (use Some in auto)
    from core_fields [OF this] assms(5) l(2) show ?thesis by (simp add: slots_inv_def cong: option.case_cong)
  next
    case None
    obtain v where v: "map_of (Upstreams c) n = Some v" "0 < uMaxActiveConns v" "uMaxActiveConns v \<le> B"
      using assms(4) by (auto simp: keeps_upstream_def split: option.splits)
    note L = loaded_queues(1) [OF l(1) [unfolded None] ok assms(3) v(1)]
    show ?thesis
    proof (cases "upstreamQueues (srv S) n")
      case None
      with L obtain q where q: "upstreamQueues s n = Some q" "qheap s ! q = New (uMaxActiveConns v) (uMaxQueuedConns v)" by auto
      have "capped B (que (qheap s ! q))" using q(2) v by (simp add: capped_def New_def)
      with q(1) None assms(5) l(2) show ?thesis by (simp add: slots_inv_def)
    next
      case (Some q)
      with L have q: "upstreamQueues s n = Some q" "qheap s ! q = SetMax (uMaxActiveConns v) (uMaxQueuedConns v) (qheap (srv S) ! q)"
        by auto
      have "capped B (que (qheap s ! q))" using q(2) v Some assms(5) by (simp add: capped_def SetMax_def slots_inv_def)
      with q(1) Some assms(5) l(2) show ?thesis by (simp add: slots_inv_def)
    qed
  qed
qed

lemma slots_inv_accept:
  assumes "sys_exec S (SAccept now c) = Some S'" "slots_inv n B S"
  shows "slots_inv n B S'"
proof -
  obtain s r where a: "accept now c (srv S) = (s, r)" "S' = \<lparr>srv = s, conns = conns S @ [r]\<rparr>"
    using assms(1) by (auto split: prod.splits)
  have "\<not> in_queue_of n r" "upstreamQueues s = upstreamQueues (srv S)" "qheap s = qheap (srv S)"
    using a(1) by (auto simp: accept_def Let_def in_queue_of_def)
  with assms(2) a(2) show ?thesis by (simp add: slots_inv_def cong: option.case_cong)
qed

lemma slots_inv_step:
  assumes "sys_inv S" "slots_inv n B S" "sys_step S e S'" "go_event e" "keeps_upstream n B e"
  shows "slots_inv n B S'"
proof (cases e)
  case (SAccept now c)
  with assms show ?thesis using slots_inv_accept unfolding sys_step_def by blast
next
  case (SRelay i env x)
  with assms show ?thesis using slots_inv_relay unfolding sys_step_def by blast
next
  case (SReload env c openLog)
  with assms show ?thesis using slots_inv_reload unfolding sys_step_def go_event_def by simp
qed

lemma reach_slots_inv:
  assumes "run sys_step sys_init es S" "list_all go_event es" "list_all (keeps_upstream n B) es"
  shows "sys_inv S \<and> slots_inv n B S"
  using assms(1)
proof (rule run_invariant)
  show "sys_inv sys_init \<and> slots_inv n B sys_init"
    using sys_inv_init by (simp add: slots_inv_def sys_init_def NewServer_def Let_def)
  show "sys_inv u \<and> slots_inv n B u" if "sys_inv t \<and> slots_inv n B t" "sys_step t e u" "e \<in> set es" for t e u
    using that assms(2,3) sys_step_inv slots_inv_step by (auto simp: list_all_iff)
qed

text \<open>The relays to \<open>n\<close> that were told to go on, or whose connection to it is open.\<close>

definition serving :: "string \<Rightarrow> sys \<Rightarrow> nat set" where
  "serving n S = {i. i < length (conns S) \<and> in_relay (conns S ! i) \<and> Upstream (rtarget (conns S ! i)) = n}"

lemma serving_bound:
  assumes "sys_inv S" "slots_inv n B S"
  shows "int (card (serving n S)) \<le> B \<or> serving n S = {}"
proof (cases "upstreamQueues (srv S) n")
  case None
  have "i \<notin> serving n S" for i
  proof
    assume i: "i \<in> serving n S"
    then have r: "conns S ! i \<in> set (conns S)" by (simp add: serving_def)
    then have "relay_wf (length (qheap (srv S))) (conns S ! i)" using assms(1) by (simp add: sys_inv_def)
    with i have "in_queue_of n (conns S ! i)"
      by (auto simp: serving_def in_queue_of_def relay_wf_def in_relay_def split: pc.splits)
    with None assms(2) r show False by (simp add: slots_inv_def)
  qed
  then show ?thesis by blast
next
  case (Some q)
  have q: "q < length (qheap (srv S))" using assms(1) Some by (auto simp: sys_inv_def queues_ok_def)
  then have T: "queue_wf (qheap (srv S) ! q)" "slots.tickets_ok (qheap (srv S) ! q) (tickets (conns S) q)"
    using assms(1) by (simp_all add: sys_inv_def tickets_all_def)
  have "\<exists>h. tickets (conns S) q i = Some (h, True)" if i: "i \<in> serving n S" for i
  proof -
    have r: "conns S ! i \<in> set (conns S)" using i by (simp add: serving_def)
    then have wf: "relay_wf (length (qheap (srv S))) (conns S ! i)" using assms(1) by (simp add: sys_inv_def)
    with i have h: "holding (conns S ! i)" "in_queue_of n (conns S ! i)"
      by (auto simp: serving_def in_queue_of_def relay_wf_def in_relay_def holding_def split: pc.splits)
    then have "rqueue (conns S ! i) = Some q" using assms(2) Some r by (auto simp: slots_inv_def)
    with h(1) i show ?thesis by (simp add: tickets_def ticket_def serving_def)
  qed
  moreover have "finite (serving n S)" by (simp add: serving_def)
  ultimately have "card (serving n S) \<le> length (active (que (qheap (srv S) ! q)))"
    using slots.tickets_bound [OF T] by blast
  with assms(2) Some show ?thesis by (simp add: slots_inv_def capped_def)
qed

end
