(* ===== verification/Books.thy ===== *)
theory Books
  imports SystemInv
begin

text \<open>
  The books of the server: the counters and the table of connections, as invariants of the system
  of all relays.
\<close>

section \<open>The books of the server\<close>

text \<open>What \<open>handleConn\<close> keeps of the connections, and what finished relays add up to.\<close>

definition books :: "Server \<Rightarrow> uint64 \<times> uint64 \<times> 32 word \<times> 32 word list" where
  "books s = (activeConnCount s, acceptedConnCount s, connIndex s, map fst (connInfo s))"

definition sums :: "Server \<Rightarrow> uint64 \<times> uint64 \<times> uint64 \<times> (moduleUpstreamKey \<times> moduleCounters) list" where
  "sums s = (completedConnCount s, sentBytesTotal s, recvBytesTotal s, smoduleCounters s)"

definition ledger :: "Server \<Rightarrow> (uint64 \<times> uint64 \<times> 32 word \<times> 32 word list) \<times>
    (uint64 \<times> uint64 \<times> uint64 \<times> (moduleUpstreamKey \<times> moduleCounters) list)" where
  "ledger s = (books s, sums s)"

lemma map_fst_map_entry [simp]: "map fst (AList.map_entry k f al) = map fst al"
  by (induction al) auto

lemma ledger_frame [simp]:
  "ledger (logAccess m s) = ledger s" "ledger (logError m s) = ledger s" "ledger (logStd m s) = ledger s"
  "ledger (upd_info i f s) = ledger s" "ledger (SetModule i m s) = ledger s" "ledger (SetUpstream i m s) = ledger s"
  "ledger (log_copy env d x s) = ledger s" "ledger (log_close env d y s) = ledger s"
  "ledger (s\<lparr>qheap := h\<rparr>) = ledger s" "ledger (s\<lparr>supstreamCounters := c\<rparr>) = ledger s" "ledger (s\<lparr>unknownModuleCount := n\<rparr>) = ledger s"
  by (simp_all add: ledger_def books_def sums_def logAccess_def logError_def logStd_def upd_info_def SetModule_def
      SetUpstream_def log_copy_def log_close_def split: option.splits)

lemma on_first_ledger: "on_first s r w st = (s', r') \<Longrightarrow> ledger s' = ledger s"
  by (auto simp: on_first_def Let_def split: prod.splits if_splits)

lemma receive_ledger: "step_receive s r = Some (s', r') \<Longrightarrow> ledger s' = ledger s"
  using on_first_ledger by (fastforce simp: step_receive_def Let_def split: option.splits pc.splits)

lemma route_ledger: "step_route s r = (s', r') \<Longrightarrow> ledger s' = ledger s"
  by (auto simp: step_route_def Let_def split: if_splits option.splits prod.splits)

lemma acquire_ledger: "step_acquire s r = (s', r') \<Longrightarrow> ledger s' = ledger s"
  by (auto simp: step_acquire_def split: option.splits sum.splits)

lemma connect_ledger: "step_connect env s r = Some (s', r') \<Longrightarrow> ledger s' = ledger s"
  by (auto simp: step_connect_def Let_def split: sum.splits option.splits)

lemma copy_ledger:
  "step_copy_up env s r = Some (s', r') \<Longrightarrow> ledger s' = ledger s"
  "step_copy_down env s r = Some (s', r') \<Longrightarrow> ledger s' = ledger s"
  "step_received_closed env res s r = Some (s', r') \<Longrightarrow> ledger s' = ledger s"
  "step_sent_closed env res s r = Some (s', r') \<Longrightarrow> ledger s' = ledger s"
  by (auto simp: step_copy_up_def step_copy_down_def step_received_closed_def step_sent_closed_def
      split: option.splits bool.splits prod.splits pc.splits)

lemma return_ledger: "step_return s r e f = (s', r') \<Longrightarrow> ledger s' = ledger s"
  by (auto simp: step_return_def Let_def split: option.splits sum.splits)

text \<open>A step leaves the ledger alone, adds a finished relay to the sums, or takes a connection off the books.\<close>

definition left_books :: "32 word \<Rightarrow> Server \<Rightarrow> uint64 \<times> uint64 \<times> 32 word \<times> 32 word list" where
  "left_books i s = (activeConnCount s - 1, acceptedConnCount s, connIndex s, filter (\<lambda>k. k \<noteq> i) (map fst (connInfo s)))"

definition added :: "string \<times> string \<Rightarrow> uint64 \<Rightarrow> uint64 \<Rightarrow> Server \<Rightarrow>
    uint64 \<times> uint64 \<times> uint64 \<times> (moduleUpstreamKey \<times> moduleCounters) list" where
  "added mu n m s = (completedConnCount s + 1, sentBytesTotal s + n, recvBytesTotal s + m, count_relay mu n m (smoduleCounters s))"

lemma finish_ledger:
  assumes "step_finish env s r = (s', r')"
  shows "rpc r' = PReturn None" "books s' = books s"
    "sums s' = added (moduleName r, Upstream (rtarget r)) (case info_of s r of Some c \<Rightarrow> SentBytes c | None \<Rightarrow> 0)
       (case info_of s r of Some c \<Rightarrow> ReceivedBytes c | None \<Rightarrow> 0) s"
  using assms by (auto simp: step_finish_def Let_def books_def sums_def added_def logAccess_def)

lemma keys_delete: "map fst (AList.delete k al) = filter (\<lambda>j. j \<noteq> k) (map fst al)"
  by (induction al) (auto simp: AList.delete_eq)

lemma leave_ledger:
  assumes "step_leave env s r x f = (s', r')"
  shows "rpc r' = PDone" "books s' = left_books (ridx r) s" "sums s' = sums s"
  using assms by (auto simp: step_leave_def Let_def books_def sums_def left_books_def logError_def keys_delete split: option.splits)

lemma relay_ledger:
  assumes "relay_exec env (s, r) e = Some (s', r')"
  obtains (same) "rpc r \<noteq> PDone" "rpc r' \<noteq> PDone" "ridx r' = ridx r" "ledger s' = ledger s"
  | (finished) mu n m where "rpc r = PFinish" "rpc r' \<noteq> PDone" "ridx r' = ridx r" "books s' = books s" "sums s' = added mu n m s"
  | (left) x f where "rpc r = PLeave x f" "rpc r' = PDone" "ridx r' = ridx r" "books s' = left_books (ridx r) s" "sums s' = sums s"
  using assms
proof (cases rule: relay_exec_cases)
  case greet
  then show thesis using greet_frame same by simp
next
  case motd
  then show thesis using motd_frame same by simp
next
  case route
  then show thesis using route_frame [OF route(2)] route_ledger [OF route(2)] same by simp
next
  case acquire
  then show thesis using acquire_frame [OF acquire(2)] acquire_ledger [OF acquire(2)] same by simp
next
  case connect
  then show thesis using connect_frame [OF connect(2)] connect_ledger [OF connect(2)] same by simp
next
  case drained
  then show thesis using same by simp
next
  case finish
  then show thesis using finish_frame [OF finish(2)] finish_ledger [OF finish(2)] finished by metis
next
  case (returns x)
  then show thesis using return_frame [OF returns(2)] return_ledger [OF returns(2)] same by simp
next
  case (panics f)
  then show thesis using return_frame [OF panics(2)] return_ledger [OF panics(2)] same by simp
next
  case (leave x f)
  then show thesis using leave_frame [OF leave(2)] leave_ledger [OF leave(2)] left by blast
next
  case status
  then show thesis using receive_frame [OF status] receive_ledger [OF status] same by simp
next
  case tick
  then show thesis using tick_frame [OF tick(1)] same by (auto simp: step_tick_def split: pc.splits)
next
  case up_round
  from copy_frame(1) [OF this] copy_ledger(1) [OF this] show thesis using same by (auto simp: flags_def split: pc.splits)
next
  case down_round
  from copy_frame(2) [OF this] copy_ledger(2) [OF this] show thesis using same by (auto simp: flags_def split: pc.splits)
next
  case (received_closed res)
  from closed_frame(1) [OF this] copy_ledger(3) [OF this] show thesis using same by auto
next
  case (sent_closed res)
  from closed_frame(2) [OF this] copy_ledger(4) [OF this] show thesis using same by auto
qed

section \<open>Who is on the books\<close>

definition live :: "relay \<Rightarrow> bool" where
  "live r \<longleftrightarrow> rpc r \<noteq> PDone"

definition books_inv :: "sys \<Rightarrow> bool" where
  "books_inv S \<longleftrightarrow> (let s = srv S; rs = conns S in
     acceptedConnCount s = of_nat (length rs) \<and> connIndex s = of_nat (length rs) \<and>
     activeConnCount s = of_nat (length (filter live rs)) \<and> (\<forall>i < length rs. ridx (rs ! i) = of_nat (Suc i)) \<and>
     distinct (map fst (connInfo s)) \<and>
     (length rs < 2 ^ 32 \<longrightarrow> fst ` set (connInfo s) = ridx ` set (filter live rs)))"

lemma books_invI:
  assumes "books s' = (of_nat (length (filter live rs)), of_nat (length rs), of_nat (length rs), ks)"
    and "\<forall>i < length rs. ridx (rs ! i) = of_nat (Suc i)" and "distinct ks"
    and "length rs < 2 ^ 32 \<Longrightarrow> set ks = ridx ` set (filter live rs)"
  shows "books_inv \<lparr>srv = s', conns = rs\<rparr>"
proof -
  have "ks = map fst (connInfo s')" using assms(1) by (simp add: books_def)
  then show ?thesis using assms by (simp add: books_inv_def books_def Let_def)
qed

lemma books_invD:
  assumes "books_inv S"
  shows "books (srv S) = (of_nat (length (filter live (conns S))), of_nat (length (conns S)), of_nat (length (conns S)),
      map fst (connInfo (srv S)))"
    and "distinct (map fst (connInfo (srv S)))" and "i < length (conns S) \<Longrightarrow> ridx (conns S ! i) = of_nat (Suc i)"
    and "length (conns S) < 2 ^ 32 \<Longrightarrow> set (map fst (connInfo (srv S))) = ridx ` set (filter live (conns S))"
  using assms by (simp_all add: books_inv_def books_def Let_def)

lemma ridx_inj:
  assumes "books_inv S" "length (conns S) < 2 ^ 32" "i < length (conns S)" "j < length (conns S)"
    "ridx (conns S ! i) = ridx (conns S ! j)"
  shows "i = j"
proof -
  have "(of_nat (Suc i) :: 32 word) = of_nat (Suc j)" using assms(5) books_invD(3) [OF assms(1)] assms(3,4) by simp
  then have "Suc i mod 2 ^ 32 = Suc j mod 2 ^ 32" by (simp only: of_nat_eq_iff take_bit_eq_mod word_of_nat_eq_iff len_num1 len_bit0) simp
  with assms(2-4) show ?thesis by simp
qed

lemma length_filter_update:
  "i < length xs \<Longrightarrow> length (filter P (xs[i := x])) + (if P (xs ! i) then 1 else 0) = length (filter P xs) + (if P x then 1 else 0)"
proof (induction xs arbitrary: i)
  case (Cons y ys)
  then show ?case by (cases i) auto
qed simp

lemma books_inv_accept:
  assumes "books_inv S" "sys_exec S (SAccept now c) = Some S'"
  shows "books_inv S'"
proof -
  obtain s r where a: "accept now c (srv S) = (s, r)" "S' = \<lparr>srv = s, conns = conns S @ [r]\<rparr>"
    using assms(2) by (auto split: prod.splits)
  note D = books_invD [OF assms(1)]
  have r: "ridx r = of_nat (Suc (length (conns S)))" "rpc r = PGreet" and b: "activeConnCount s = activeConnCount (srv S) + 1"
      "acceptedConnCount s = acceptedConnCount (srv S) + 1" "connIndex s = ridx r"
    and k: "\<exists>v. connInfo s = AList.update (ridx r) v (connInfo (srv S))"
    using a(1) D(1) by (auto simp: accept_def Let_def books_def)
  have live: "live r" by (simp add: live_def r(2))
  obtain v where v: "connInfo s = AList.update (ridx r) v (connInfo (srv S))" using k by blast
  have dist: "distinct (map fst (connInfo s))" using D(2) by (simp add: v wf_map_update)
  have keys: "set (map fst (connInfo s)) = insert (ridx r) (set (map fst (connInfo (srv S))))"
    by (simp add: v dom_update)
  show ?thesis unfolding a(2)
  proof (rule books_invI)
    show "books s = (of_nat (length (filter live (conns S @ [r]))), of_nat (length (conns S @ [r])), of_nat (length (conns S @ [r])),
        map fst (connInfo s))"
      using D(1) b r live by (simp add: books_def)
    show "\<forall>i < length (conns S @ [r]). ridx ((conns S @ [r]) ! i) = of_nat (Suc i)"
      using D(3) r(1) by (auto simp: nth_append less_Suc_eq)
    show "set (map fst (connInfo s)) = ridx ` set (filter live (conns S @ [r]))" if "length (conns S @ [r]) < 2 ^ 32"
      using keys D(4) that live by simp
  qed (rule dist)
qed

lemma books_inv_relay:
  assumes "books_inv S" "sys_exec S (SRelay i env e) = Some S'"
  shows "books_inv S'"
proof -
  have i: "i < length (conns S)" using assms(2) by (auto split: if_splits)
  with assms(2) obtain s' r' where x: "relay_exec env (srv S, conns S ! i) e = Some (s', r')"
    "S' = \<lparr>srv = s', conns = (conns S)[i := r']\<rparr>" by auto
  note D = books_invD [OF assms(1)]
  let ?rs = "(conns S)[i := r']"
  have idx: "\<forall>j < length ?rs. ridx (?rs ! j) = of_nat (Suc j)" if "ridx r' = ridx (conns S ! i)"
    using D(3) i that by (auto simp: nth_list_update)
  have lives: "ridx ` set (filter live ?rs) = ridx ` set (filter live (conns S))"
    if "ridx r' = ridx (conns S ! i)" "live r' = live (conns S ! i)"
  proof -
    define f where "f r = (ridx r, live r)" for r
    have "f r' = map f (conns S) ! i" unfolding nth_map [OF i] using that by (simp add: f_def)
    then have "map f ?rs = map f (conns S)" by (metis list_update_id map_update)
    then have "f ` set ?rs = f ` set (conns S)" by (metis set_map)
    moreover have "ridx ` set (filter live rs) = fst ` {p \<in> f ` set rs. snd p}" for rs by (force simp: f_def)
    ultimately show ?thesis by simp
  qed
  have kept: "books_inv S'" if k: "ridx r' = ridx (conns S ! i)" "live (conns S ! i)" "live r'" "books s' = books (srv S)"
    unfolding x(2)
  proof (rule books_invI)
    show "books s' = (of_nat (length (filter live ?rs)), of_nat (length ?rs), of_nat (length ?rs), map fst (connInfo (srv S)))"
      using k D(1) length_filter_update [OF i, of live r'] by simp
    show "set (map fst (connInfo (srv S))) = ridx ` set (filter live ?rs)" if "length ?rs < 2 ^ 32"
      using lives k D(4) that by simp
  qed (use idx k D(2) in blast)+
  show ?thesis using x(1)
  proof (cases rule: relay_ledger)
    case same
    then show ?thesis using kept by (simp add: live_def ledger_def)
  next
    case finished
    then show ?thesis using kept by (simp add: live_def)
  next
    case (left p f)
    let ?ks = "filter (\<lambda>k. k \<noteq> ridx (conns S ! i)) (map fst (connInfo (srv S)))"
    have l: "live (conns S ! i)" "\<not> live r'" using left by (simp_all add: live_def)
    have n: "length (filter live (conns S)) = Suc (length (filter live ?rs))" using length_filter_update [OF i, of live r'] l by simp
    show ?thesis unfolding x(2)
    proof (rule books_invI)
      show "books s' = (of_nat (length (filter live ?rs)), of_nat (length ?rs), of_nat (length ?rs), ?ks)"
        using left D(1) n by (simp add: left_books_def books_def)
      show "set ?ks = ridx ` set (filter live ?rs)" if "length ?rs < 2 ^ 32"
      proof -
        have small: "length (conns S) < 2 ^ 32" using that by simp
        have "set ?ks = ridx ` set (filter live (conns S)) - {ridx (conns S ! i)}" using D(4) [OF small] by auto
        also have "\<dots> = ridx ` set (filter live ?rs)"
        proof (intro equalityI subsetI)
          fix k assume "k \<in> ridx ` set (filter live (conns S)) - {ridx (conns S ! i)}"
          then obtain j where j: "j < length (conns S)" "live (conns S ! j)" "k = ridx (conns S ! j)" "k \<noteq> ridx (conns S ! i)"
            by (auto simp: in_set_conv_nth)
          then have "?rs ! j = conns S ! j" by (metis nth_list_update_neq)
          moreover have "?rs ! j \<in> set ?rs" using j(1) by (metis length_list_update nth_mem)
          ultimately have "conns S ! j \<in> set (filter live ?rs)" using j(2) by simp
          then show "k \<in> ridx ` set (filter live ?rs)" unfolding j(3) by (rule imageI)
        next
          fix k assume "k \<in> ridx ` set (filter live ?rs)"
          then obtain j where j: "j < length (conns S)" "live (?rs ! j)" "k = ridx (?rs ! j)" by (auto simp: in_set_conv_nth)
          then have "j \<noteq> i" using l i by auto
          then have "?rs ! j = conns S ! j" "k \<noteq> ridx (conns S ! i)"
            using j ridx_inj [OF assms(1) small j(1) i] by auto
          with j show "k \<in> ridx ` set (filter live (conns S)) - {ridx (conns S ! i)}" by auto
        qed
        finally show ?thesis .
      qed
    qed (use idx left D(2) in auto)
  qed
qed

lemma ledger_core: "ledger (core s) = ledger s"
  by (simp add: ledger_def books_def sums_def core_def)

lemma load_ledger:
  assumes "loadConfig env c openLog s = Some (r, s')"
  shows "ledger s' = ledger s"
  using assms
proof (cases rule: loadConfig_cases)
  case failed
  then show ?thesis by (metis ledger_core)
next
  case (loaded us found cert s1)
  have "ledger s' = ledger s1" using loaded(5) by (simp add: install_def ledger_def books_def sums_def split: prod.splits)
  with loaded(4) show ?thesis by (metis ledger_core)
qed

lemma books_inv_step:
  assumes "books_inv S" "sys_step S e S'"
  shows "books_inv S'"
proof (cases e)
  case (SReload env c ol)
  with assms(2) obtain r s where l: "loadConfig env c ol (srv S) = Some (r, s)" "S' = S\<lparr>srv := s\<rparr>" by (auto simp: sys_step_def)
  have "books s = books (srv S)" using load_ledger [OF l(1)] by (simp add: ledger_def)
  then show ?thesis using assms(1) l(2) by (simp add: books_inv_def books_def Let_def) (metis set_map)
next
  case (SAccept now c)
  then show ?thesis using books_inv_accept [OF assms(1)] assms(2) by (simp only: sys_step_def)
next
  case (SRelay i env x)
  then show ?thesis using books_inv_relay [OF assms(1)] assms(2) by (simp only: sys_step_def)
qed

lemma reach_books_inv:
  assumes "run sys_step sys_init es S"
  shows "books_inv S"
  using assms
proof (rule run_invariant)
  show "books_inv sys_init" by (simp add: books_inv_def sys_init_def NewServer_def Let_def)
qed (rule books_inv_step)

section \<open>What finished relays add up to\<close>

definition sums_inv :: "sys \<Rightarrow> bool" where
  "sums_inv S \<longleftrightarrow> (let s = srv S; m = smoduleCounters s in wf_map m \<and>
     completedConnCount s = per_module.total completed m \<and> sentBytesTotal s = per_module.total sentBytes m \<and>
     recvBytesTotal s = per_module.total recvBytes m)"

lemma sums_inv_added:
  assumes "sums_inv S" "sums s' = added mu n m (srv S)"
  shows "sums_inv (S\<lparr>srv := s'\<rparr>)"
proof -
  have wf: "wf_map (smoduleCounters (srv S))" using assms(1) by (simp add: sums_inv_def Let_def)
  have "per_module.total completed (count_relay mu n m (smoduleCounters (srv S))) = per_module.total completed (smoduleCounters (srv S)) + 1"
    "per_module.total sentBytes (count_relay mu n m (smoduleCounters (srv S))) = per_module.total sentBytes (smoduleCounters (srv S)) + n"
    "per_module.total recvBytes (count_relay mu n m (smoduleCounters (srv S))) = per_module.total recvBytes (smoduleCounters (srv S)) + m"
    unfolding count_bump by (rule per_module.total_bump [OF wf]; simp)+
  moreover have "wf_map (count_relay mu n m (smoduleCounters (srv S)))" unfolding count_bump by (rule per_module.wf_bump [OF wf])
  ultimately show ?thesis using assms by (simp add: sums_inv_def Let_def sums_def added_def)
qed

lemma sums_inv_cong: "sums s' = sums (srv S) \<Longrightarrow> srv S' = s' \<Longrightarrow> sums_inv S \<Longrightarrow> sums_inv S'"
  by (simp add: sums_inv_def sums_def Let_def)

lemma sums_inv_step:
  assumes "sums_inv S" "sys_step S e S'"
  shows "sums_inv S'"
proof (cases e)
  case (SReload env c ol)
  with assms(2) obtain r s where l: "loadConfig env c ol (srv S) = Some (r, s)" "S' = S\<lparr>srv := s\<rparr>" by (auto simp: sys_step_def)
  have "sums s = sums (srv S)" using load_ledger [OF l(1)] by (simp add: ledger_def)
  with assms(1) l(2) show ?thesis by (auto intro: sums_inv_cong)
next
  case (SAccept now c)
  with assms(2) have "sums (srv S') = sums (srv S)" by (auto simp: sys_step_def accept_def Let_def sums_def)
  with assms(1) show ?thesis by (auto intro: sums_inv_cong)
next
  case (SRelay i env x)
  with assms(2) obtain s' r' where x: "relay_exec env (srv S, conns S ! i) x = Some (s', r')" "srv S' = s'"
    by (auto simp: sys_step_def split: if_splits)
  from x(1) show ?thesis
  proof (cases rule: relay_ledger)
    case same
    with assms(1) x(2) show ?thesis by (auto simp: ledger_def intro: sums_inv_cong)
  next
    case (finished mu n m)
    from sums_inv_added [OF assms(1) finished(5)] have "sums_inv (S\<lparr>srv := s'\<rparr>)" .
    then show ?thesis using x(2) by (simp add: sums_inv_def)
  next
    case left
    with assms(1) x(2) show ?thesis by (auto intro: sums_inv_cong)
  qed
qed

lemma reach_sums_inv:
  assumes "run sys_step sys_init es S"
  shows "sums_inv S"
  using assms
proof (rule run_invariant)
  show "sums_inv sys_init" by (simp add: sums_inv_def sys_init_def NewServer_def Let_def per_module.total_def)
qed (rule sums_inv_step)

end
