(* ===== verification/MetricsProps.thy ===== *)
theory MetricsProps
  imports Metrics Books
begin

text \<open>Properties of the \<open>/metrics\<close> page: its labels, its lines, its numbers.\<close>

section \<open>Labels\<close>

text \<open>Byte by byte: what the three passes of the escaping do together.\<close>

definition escape_byte :: "char \<Rightarrow> string" where
  "escape_byte c = (if c = CHR 0x5C then [CHR 0x5C, CHR 0x5C] else if c = LF then [CHR 0x5C, CHR ''n'']
     else if c = CHR 0x22 then [CHR 0x5C, CHR 0x22] else [c])"


lemma escape_bytes: "prometheusEscapeLabelValue s = concat (map escape_byte s)"
  by (induction s) (auto simp: prometheusEscapeLabelValue_def Let_def escape_byte_def replaceByte_append)

text \<open>How a scraper reads a label value, up to the closing quote.\<close>

fun read_label :: "string \<Rightarrow> (string \<times> string) option" where
  "read_label [] = None"
| "read_label (c # s) =
     (if c = CHR 0x22 then Some ([], s)
      else if c = LF then None
      else if c = CHR 0x5C then
        (case s of
           [] \<Rightarrow> None
         | d # t \<Rightarrow>
             (case (if d = CHR 0x5C then Some (CHR 0x5C) else if d = CHR ''n'' then Some LF
                    else if d = CHR 0x22 then Some (CHR 0x22) else None) of
                None \<Rightarrow> None
              | Some x \<Rightarrow> map_option (\<lambda>(v, r). (x # v, r)) (read_label t)))
      else map_option (\<lambda>(v, r). (c # v, r)) (read_label s))"

lemma read_escaped: "read_label (prometheusEscapeLabelValue s @ CHR 0x22 # rest) = Some (s, rest)"
  unfolding escape_bytes by (induction s) (auto simp: escape_byte_def)

lemma escape_no_LF [simp]: "LF \<notin> set (prometheusEscapeLabelValue s)"
  unfolding escape_bytes by (auto simp: escape_byte_def split: if_splits)

text \<open>
  C27. Whatever bytes the name of a module or an upstream has (a client chooses the module it asks for),
  a scraper reads exactly this name back from the label, and goes on right behind it: no name can
  end its label early or forge another one.
\<close>

theorem label_reads_back: "read_label (prometheusEscapeLabelValue s @ CHR 0x22 # rest) = Some (s, rest)"
  by (rule read_escaped)

text \<open>So the labels tell connections, and groups of connections, apart.\<close>

lemma quoted_read: "quoted s @ rest = quoted s' @ rest' \<Longrightarrow> s = s' \<and> rest = rest'"
proof -
  assume "quoted s @ rest = quoted s' @ rest'"
  then have "prometheusEscapeLabelValue s @ CHR 0x22 # rest = prometheusEscapeLabelValue s' @ CHR 0x22 # rest'"
    by (simp add: quoted_def)
  then have "Some (s, rest) = Some (s', rest')" by (metis read_escaped)
  then show ?thesis by simp
qed

lemma key_labels_inject: "key_labels k = key_labels k' \<longleftrightarrow> k = k'"
proof
  assume e: "key_labels k = key_labels k'"
  then have "quoted (keyModule k) @ ('',upstream='' @ quoted (keyUpstream k)) = quoted (keyModule k') @ ('',upstream='' @ quoted (keyUpstream k'))"
    by (simp only: key_labels_def append_assoc same_append_eq)
  note q = quoted_read [OF this]
  then have "quoted (keyUpstream k) @ [] = quoted (keyUpstream k') @ []" by (simp only: same_append_eq append_Nil2)
  from quoted_read [OF this] q show "k = k'" by (simp add: moduleUpstreamKey.expand)
qed simp

section \<open>Lines\<close>

abbreviation newlines :: "string \<Rightarrow> nat" where
  "newlines s \<equiv> count_list s LF"

lemma newlines_none: "LF \<notin> set s \<Longrightarrow> newlines s = 0"
  by (simp add: count_list_0_iff)

lemma show_int_no_LF [simp]: "LF \<notin> set (show_int i)"
  by (simp add: show_int_def is_digit_def)

lemma quoted_no_LF [simp]: "LF \<notin> set (quoted s)"
  by (simp add: quoted_def)

lemma labels_no_LF [simp]: "LF \<notin> set (key_labels k)" "LF \<notin> set (prometheusLabels i m u)" "LF \<notin> set (''upstream='' @ quoted s)"
  by (simp_all add: key_labels_def prometheusLabels_def is_digit_def)

lemma sample_lines: "LF \<notin> set name \<Longrightarrow> LF \<notin> set labels \<Longrightarrow> LF \<notin> set val \<Longrightarrow> newlines (sample name labels val) = 1"
  by (simp add: sample_def newlines_none)

lemma header_lines: "LF \<notin> set name \<Longrightarrow> LF \<notin> set help \<Longrightarrow> LF \<notin> set typ \<Longrightarrow> newlines (metric_header name help typ) = 2"
  by (simp add: metric_header_def newlines_none)

lemma plain_lines: "LF \<notin> set name \<Longrightarrow> LF \<notin> set help \<Longrightarrow> LF \<notin> set typ \<Longrightarrow> LF \<notin> set val \<Longrightarrow> newlines (plain_metric name help typ val) = 3"
  by (simp add: plain_metric_def header_lines newlines_none)

lemma newlines_concat: "newlines (concat xs) = sum_list (map newlines xs)"
  by (induction xs) auto

lemma newlines_each: "(\<And>x. x \<in> set xs \<Longrightarrow> newlines (f x) = 1) \<Longrightarrow> newlines (concat (map f xs)) = length xs"
  by (induction xs) auto

lemma show_nat_no_LF [simp]: "LF \<notin> set (show_nat n)"
  by (simp add: is_digit_def)

text \<open>The lines of each section.\<close>

definition with_queue :: "Server \<Rightarrow> nat" where
  "with_queue s = length (filter (\<lambda>u. upstreamQueues s (Name u) \<noteq> None) (supstreams s))"

lemma queue_samples_lines:
  assumes "LF \<notin> set name"
  shows "newlines (queue_samples name get s us) = length (filter (\<lambda>u. upstreamQueues s (Name u) \<noteq> None) us)"
  unfolding queue_samples_def using assms
  by (induction us) (auto simp: sample_lines simp del: append_Cons split: option.split)

lemma upstream_samples_lines:
  assumes "LF \<notin> set name" "upstream_samples name get us m = (t, m')"
  shows "newlines t = length us"
  using assms
proof (induction us arbitrary: m t m')
  case (Cons u us)
  obtain c m1 where c: "getUpstreamCounters (Name u) m = (c, m1)" by (metis surj_pair)
  obtain t2 m2 where t2: "upstream_samples name get us m1 = (t2, m2)" by (metis surj_pair)
  have "newlines (sample name (''upstream='' @ quoted (Name u)) (show_nat (unat (get c)))) = 1"
    using Cons.prems(1) by (intro sample_lines) simp_all
  moreover have "t = sample name (''upstream='' @ quoted (Name u)) (show_nat (unat (get c))) @ t2" using Cons.prems(2) c t2 by simp
  ultimately show ?case using Cons.IH [OF Cons.prems(1) t2] by simp
qed simp

lemma connection_samples_lines:
  assumes "LF \<notin> set name" "\<And>sn. LF \<notin> set (get sn)"
  shows "newlines (connection_samples name get cs) = length cs"
  unfolding connection_samples_def Let_def using assms by (intro newlines_each sample_lines) simp_all

lemma module_samples_lines:
  assumes "LF \<notin> set name"
  shows "newlines (module_samples name get stats) = length stats"
  unfolding module_samples_def using assms by (intro newlines_each) (auto simp: sample_lines)

lemma group_lines: "newlines (group_metrics cs) = 2 + length (connectionCounts cs)"
proof -
  have "newlines (concat (map (\<lambda>k. sample ''rsync_proxy_active_connections_by_module'' (key_labels k) (show_nat (the (map_of m k)))) ks)) = length ks" for ks m
    by (intro newlines_each sample_lines) simp_all
  then show ?thesis by (simp add: group_metrics_def Let_def header_lines)
qed

lemma queue_metrics_lines:
  "newlines (queue_metrics s us) = 6 + 3 * length (filter (\<lambda>u. upstreamQueues s (Name u) \<noteq> None) us)"
  by (simp add: queue_metrics_def header_lines queue_samples_lines)

lemma upstream_metrics_lines:
  assumes "upstream_metrics s us = (t, s')"
  shows "newlines t = 4 + 2 * length us"
proof -
  obtain t1 m1 where 1: "upstream_samples ''rsync_proxy_queue_full_rejected_total'' queueFull us (supstreamCounters s) = (t1, m1)" by (metis surj_pair)
  obtain t2 m2 where 2: "upstream_samples ''rsync_proxy_upstream_dial_errors_total'' dialError us m1 = (t2, m2)" by (metis surj_pair)
  have "newlines t1 = length us" "newlines t2 = length us"
    by (rule upstream_samples_lines [OF _ 1], simp) (rule upstream_samples_lines [OF _ 2], simp)
  with assms 1 2 show ?thesis by (auto simp: upstream_metrics_def header_lines)
qed

lemma connection_metrics_lines:
  assumes "\<And>d. LF \<notin> set (fmt3 d)"
  shows "newlines (connection_metrics fmt3 now cs) = 8 + 4 * length cs"
  using assms by (simp add: connection_metrics_def header_lines connection_samples_lines)

lemma module_metrics_lines: "newlines (module_metrics s) = 6 + 3 * length (smoduleCounters s)"
  by (simp add: module_metrics_def Let_def header_lines module_samples_lines)

lemma upstream_metrics_state: "upstream_metrics s us = (t, s') \<Longrightarrow> \<exists>m. s' = s\<lparr>supstreamCounters := m\<rparr>"
  by (auto simp: upstream_metrics_def Let_def split: prod.splits)

lemma length_ListConnectionInfo [simp]: "length (ListConnectionInfo s) = length (connInfo s)"
  by (simp add: ListConnectionInfo_def)

text \<open>
  C28. A page has exactly the lines it should have, whatever the modules and upstreams are called: two
  comment lines per metric, and one line per sample. No name breaks a line or adds one.
\<close>

theorem metrics_line_count:
  assumes "\<And>d. LF \<notin> set (fmt3 d)"
  shows "newlines (fst (writePrometheusMetrics fmt3 now s)) =
    44 + 3 * with_queue s + 2 * length (supstreams s) + length (connectionCounts (ListConnectionInfo s)) +
    4 * length (connInfo s) + 3 * length (smoduleCounters s)"
proof -
  let ?us = "sort_key Name (supstreams s)"
  obtain t s1 where u: "upstream_metrics s ?us = (t, s1)" by (metis surj_pair)
  obtain m where s1: "s1 = s\<lparr>supstreamCounters := m\<rparr>" using upstream_metrics_state [OF u] by blast
  have w: "length (filter (\<lambda>u. upstreamQueues s (Name u) \<noteq> None) ?us) = with_queue s"
    by (simp only: with_queue_def filter_sort length_sort)
  have c: "newlines (connection_counts s1) = 6" "newlines (total_metrics s1) = 12"
    by (simp_all add: connection_counts_def total_metrics_def plain_lines)
  have "fst (writePrometheusMetrics fmt3 now s) = queue_metrics s ?us @ t @ connection_counts s1 @ group_metrics (ListConnectionInfo s) @
      connection_metrics fmt3 now (ListConnectionInfo s) @ total_metrics s1 @ module_metrics s1"
    by (simp add: writePrometheusMetrics_def u Let_def)
  moreover have "newlines t = 4 + 2 * length (supstreams s)" using upstream_metrics_lines [OF u] by simp
  ultimately show ?thesis
    using c w connection_metrics_lines [of fmt3 now, OF assms]
    by (simp add: queue_metrics_lines group_lines module_metrics_lines s1)
qed

definition odd_client :: ConnInfo where
  "odd_client = \<lparr>connIdx = 1, connLocal = [], connRemote = [], ConnectedAt = 0, connModule = ''a'' @ [CHR 0x22] @ ''} 1'' @ [LF] @ ''forged 1'',
     connUpstream = [], SentBytes = 0, ReceivedBytes = 0\<rparr>"

theorem metrics_line_count_witness:
  "newlines (fst (writePrometheusMetrics (\<lambda>d. ''0.000'') 0 (NewServer\<lparr>connInfo := [(1, odd_client)]\<rparr>))) = 49"
  using metrics_line_count [of "\<lambda>d. ''0.000''" 0 "NewServer\<lparr>connInfo := [(1, odd_client)]\<rparr>"]
  by (simp add: with_queue_def ListConnectionInfo_def connectionCounts_def NewServer_def Let_def)

section \<open>Groups of connections\<close>

definition members :: "ConnInfo list \<Rightarrow> moduleUpstreamKey \<Rightarrow> nat" where
  "members cs k = length (filter (\<lambda>c. connection_key c = k) cs)"

lemma connectionCounts_snoc:
  "connectionCounts (cs @ [c]) = (let m = connectionCounts cs; k = connection_key c
     in AList.update k (Suc (case map_of m k of Some n \<Rightarrow> n | None \<Rightarrow> 0)) m)"
  by (simp add: connectionCounts_def Let_def)

text \<open>The map of the code is the counting function.\<close>

lemma connectionCounts_members:
  "wf_map (connectionCounts cs) \<and> map_of (connectionCounts cs) k = (if members cs k = 0 then None else Some (members cs k))"
proof (induction cs arbitrary: k rule: rev_induct)
  case Nil
  then show ?case by (simp add: connectionCounts_def members_def)
next
  case (snoc c cs)
  have "map_of (connectionCounts cs) (connection_key c) =
      (if members cs (connection_key c) = 0 then None else Some (members cs (connection_key c)))" using snoc by blast
  then show ?case using snoc [of k] by (auto simp: connectionCounts_snoc Let_def members_def update_conv' split: if_splits)
qed

lemma members_sum: "finite K \<Longrightarrow> connection_key ` set cs \<subseteq> K \<Longrightarrow> (\<Sum>k \<in> K. members cs k) = length cs"
proof (induction cs)
  case Nil
  then show ?case by (simp add: members_def)
next
  case (Cons c cs)
  have m: "members (c # cs) k = (if k = connection_key c then 1 else 0) + members cs k" for k by (simp add: members_def)
  have "(\<Sum>k \<in> K. if k = connection_key c then 1 else (0::nat)) = 1" using Cons.prems by (simp add: sum.delta)
  then show ?case using Cons by (simp add: m sum.distrib)
qed

lemma counts_sum: "sum_list (map snd (connectionCounts cs)) = length cs"
proof -
  let ?m = "connectionCounts cs"
  note M = connectionCounts_members [of cs]
  have wf: "wf_map ?m" using M by blast
  have keys: "fst ` set ?m = connection_key ` set cs"
  proof -
    have "k \<in> fst ` set ?m \<longleftrightarrow> members cs k \<noteq> 0" for k
      using M [of k] map_of_eq_None_iff [of ?m k] by (metis option.distinct(1))
    then have "fst ` set ?m = {k. members cs k \<noteq> 0}" by blast
    moreover have "connection_key ` set cs = {k. members cs k \<noteq> 0}" by (auto simp: members_def filter_empty_conv)
    ultimately show ?thesis by simp
  qed
  have "sum_list (map snd ?m) = (\<Sum>x \<in> set ?m. snd x)" using wf by (simp add: sum_list_distinct_conv_sum_set distinct_map)
  also have "\<dots> = (\<Sum>x \<in> set ?m. members cs (fst x))"
  proof (rule sum.cong)
    fix x assume "x \<in> set ?m"
    then have "map_of ?m (fst x) = Some (snd x)" using wf by simp
    then show "snd x = members cs (fst x)" using M [of "fst x"] by (simp split: if_splits)
  qed simp
  also have "\<dots> = (\<Sum>k \<in> fst ` set ?m. members cs k)" using wf by (simp add: sum.reindex distinct_map)
  also have "\<dots> = length cs" using members_sum [of "fst ` set ?m" cs] keys by simp
  finally show ?thesis .
qed

text \<open>
  The connections by module and upstream are exactly counted: each group that has a member appears
  once, with the number of its members, a group without members does not, and the numbers of all
  groups add up to the number of connections.
\<close>

theorem groups_counted:
  "distinct (map fst (connectionCounts cs)) \<and>
   map_of (connectionCounts cs) k = (if \<exists>c \<in> set cs. connection_key c = k then Some (length (filter (\<lambda>c. connection_key c = k) cs)) else None) \<and>
   sum_list (map snd (connectionCounts cs)) = length cs"
proof -
  have "members cs k = 0 \<longleftrightarrow> \<not> (\<exists>c \<in> set cs. connection_key c = k)" by (auto simp: members_def filter_empty_conv)
  then show ?thesis using connectionCounts_members [of cs k] counts_sum [of cs] by (auto simp: members_def)
qed

text \<open>In the running server these are the connections that are open.\<close>

lemma length_connInfo:
  assumes "books_inv S" "length (conns S) < 2 ^ 32"
  shows "length (connInfo (srv S)) = length (filter live (conns S))"
proof -
  have "distinct (map ridx (conns S))"
    using ridx_inj [OF assms] by (simp add: distinct_conv_nth) blast
  then have d: "distinct (map ridx (filter live (conns S)))" by (rule distinct_map_filter)
  have "length (connInfo (srv S)) = card (set (map fst (connInfo (srv S))))"
    using books_invD(2) [OF assms(1)] by (metis distinct_card length_map)
  also have "\<dots> = card (set (map ridx (filter live (conns S))))" using books_invD(4) [OF assms] by simp
  also have "\<dots> = length (filter live (conns S))" using d by (metis distinct_card length_map)
  finally show ?thesis .
qed

end
