(* ===== verification/SystemProps.thy ===== *)
theory SystemProps
  imports MetricsProps ServerProps DiscoveryProps "HOL-Library.Code_Target_Nat"
begin

text \<open>
  Properties of the whole server: many connections at once, each at its own point of \<open>relay\<close>, and
  reloads, in any order.
\<close>

section \<open>A run to try things on\<close>

definition demo_conn :: "8 word list \<Rightarrow> string list \<Rightarrow> conn" where
  "demo_conn a bss = (test_conn bss)\<lparr>remoteAddr := TCPAddr a 40000 []\<rparr>"

definition demo_relayenv :: relayenv where
  "demo_relayenv = \<lparr>rdial = (\<lambda>net a. Inr (demo_conn [10, 0, 0, 3] [''@RSYNCD: 31.0'' @ [LF], ''data''])), rquote = (\<lambda>s. s), rduration = ''1s''\<rparr>"

definition demo_go :: "nat \<Rightarrow> revent \<Rightarrow> sevent" where
  "demo_go i e = SRelay i demo_relayenv e"

text \<open>
  A load, two clients; the first asks for a module that there is, up to the copying, and then to
  its end; the second asks for one there is not.
\<close>

definition demo_start :: "sevent list" where
  "demo_start = [SReload demo_env demo_conf True, SAccept 0 (demo_conn [192, 0, 2, 7] [''@RSYNCD: 31.0'' @ [LF], ''foo'' @ [LF], ''payload'']),
     SAccept 0 (demo_conn [192, 0, 2, 9] [''@RSYNCD: 31.0'' @ [LF], ''nope'' @ [LF]])] @
     map (demo_go 0) [RGo, RGo, RGo, RGo, RStatus, RGo, RCopyUp, RCopyDown]"

definition demo_rest :: "sevent list" where
  "demo_rest = map (demo_go 0) [RCopyUp, RSentClosed None, RCopyDown, RGo, RGo, RGo, RGo] @ map (demo_go 1) [RGo, RGo, RGo, RGo, RGo]"

definition demo_mid :: sys where "demo_mid = the (sys_execs sys_init demo_start)"
definition demo_end :: sys where "demo_end = the (sys_execs demo_mid demo_rest)"

lemma execsI: "\<not> Option.is_none (sys_execs S es) \<Longrightarrow> run sys_step S es (the (sys_execs S es))"
  by (auto simp: Option.is_none_def simp flip: sys_execs_run)

lemma demo_mid_run: "run sys_step sys_init demo_start demo_mid"
  unfolding demo_mid_def by (rule execsI) code_simp

lemma demo_end_run: "run sys_step sys_init (demo_start @ demo_rest) demo_end"
proof -
  have "run sys_step demo_mid demo_rest demo_end" unfolding demo_end_def by (rule execsI) code_simp
  with demo_mid_run show ?thesis by (auto simp: run_append_iff)
qed

definition demo_mid_check :: "sys \<Rightarrow> bool" where
  "demo_mid_check S \<longleftrightarrow> length (conns S) = 2 \<and> rpc (conns S ! 0) = PCopy False False \<and> rpc (conns S ! 1) = PGreet \<and>
     Upstream (rtarget (conns S ! 0)) = ''u1'' \<and> ActiveLen (qheap (srv S) ! 0) = 1"

definition demo_end_check :: "sys \<Rightarrow> bool" where
  "demo_end_check S \<longleftrightarrow> length (qheap (srv S)) = 2 \<and> length (conns S) = 2 \<and>
     list_all (\<lambda>r. \<not> (holding r \<and> rqueue r = Some 0)) (conns S) \<and>
     smoduleCounters (srv S) = [(Key ''foo'' ''u1'', \<lparr>completed = 1, sentBytes = 4, recvBytes = 7\<rparr>)]"

lemma demo_checks: "demo_mid_check demo_mid" "demo_end_check demo_end"
  by code_simp+

lemma demo_mid_facts:
  "length (conns demo_mid) = 2" "rpc (conns demo_mid ! 0) = PCopy False False" "rpc (conns demo_mid ! 1) = PGreet"
  "Upstream (rtarget (conns demo_mid ! 0)) = ''u1''" "ActiveLen (qheap (srv demo_mid) ! 0) = 1"
  using demo_checks(1) by (simp_all add: demo_mid_check_def)

lemma demo_events: "list_all go_event (demo_start @ demo_rest)" "list_all (keeps_upstream ''u1'' 30) (demo_start @ demo_rest)"
  by (simp_all add: demo_start_def demo_rest_def demo_go_def go_event_def keeps_upstream_def demo_conf_def demo_up_def)

section \<open>No relay panics\<close>

text \<open>The relay is about to panic, or unwinds after a panic.\<close>

definition panicking :: "relay \<Rightarrow> bool" where
  "panicking r \<longleftrightarrow> (case rpc r of PPanic f \<Rightarrow> True | PLeave e f \<Rightarrow> f \<noteq> None | _ \<Rightarrow> False)"

text \<open>
  C2. Whatever clients, upstreams and reloads do, and in whatever order, no relay panics: no index
  of a target out of range, no panic in the queue, when it acquires and when it releases.
\<close>

theorem relays_never_panic:
  assumes "run sys_step sys_init es S" and "list_all go_event es" and "r \<in> set (conns S)"
  shows "\<not> panicking r"
proof -
  have "relay_wf (length (qheap (srv S))) r" using reach_sys_inv [OF assms(1,2)] assms(3) by (simp add: sys_inv_def)
  then show ?thesis by (auto simp: panicking_def relay_wf_def split: pc.splits)
qed

theorem relays_never_panic_witness: "\<not> panicking (conns demo_mid ! 0) \<and> rpc (conns demo_mid ! 0) = PCopy False False"
proof -
  have "conns demo_mid ! 0 \<in> set (conns demo_mid)" using demo_mid_facts(1) by simp
  then show ?thesis using relays_never_panic [OF demo_mid_run] demo_events(1) demo_mid_facts(2) by simp
qed

section \<open>The limit of an upstream\<close>

text \<open>
  C1. An upstream never has more than its limit of connections: however clients come and go and
  with reloads in between, as long as each of them keeps the upstream with a limit from 1 to \<open>B\<close>,
  at most \<open>B\<close> relays are between the admission by its queue and the end of their connection to it.
\<close>

theorem upstream_never_overloaded:
  assumes "run sys_step sys_init es S" and "list_all go_event es" and "list_all (keeps_upstream n B) es" and "0 \<le> B"
  shows "int (card (serving n S)) \<le> B"
  using serving_bound [of S n B] reach_slots_inv [OF assms(1-3)] assms(4) by auto

theorem upstream_never_overloaded_witness:
  "int (card (serving ''u1'' demo_mid)) \<le> 30 \<and> 0 \<in> serving ''u1'' demo_mid"
  using upstream_never_overloaded [OF demo_mid_run, of "''u1''" 30] demo_events demo_mid_facts
  by (simp add: serving_def in_relay_def)

section \<open>No slot is lost\<close>

text \<open>
  C3. Whatever became of the relays, by an error at any point or at their end, the queue has its
  slots back: when no relay is between its \<open>Acquire\<close> and its \<open>Release\<close> on a queue, nobody is
  active in it and nobody waits in it.
\<close>

theorem no_slot_is_lost:
  assumes "run sys_step sys_init es S" and "list_all go_event es" and "q < length (qheap (srv S))"
    and "list_all (\<lambda>r. \<not> (holding r \<and> rqueue r = Some q)) (conns S)"
  shows "ActiveLen (qheap (srv S) ! q) = 0 \<and> QueuedLen (qheap (srv S) ! q) = 0"
proof -
  let ?w = "qheap (srv S) ! q"
  have T: "queue_wf ?w" "slots.tickets_ok ?w (tickets (conns S) q)"
    using reach_sys_inv [OF assms(1,2)] assms(3) by (simp_all add: sys_inv_def tickets_all_def)
  have "tickets (conns S) q = Map.empty"
    using assms(4) by (auto simp: fun_eq_iff tickets_def ticket_def list_all_length)
  with T(2) have "live_handles ?w = {}" using slots.tickets_none by metis
  with no_live_idle [OF T(1)] show ?thesis by (simp add: ActiveLen_def QueuedLen_def)
qed

lemma demo_end_facts: "length (qheap (srv demo_end)) = 2" "length (conns demo_end) = 2"
  "list_all (\<lambda>r. \<not> (holding r \<and> rqueue r = Some 0)) (conns demo_end)"
  "smoduleCounters (srv demo_end) = [(Key ''foo'' ''u1'', \<lparr>completed = 1, sentBytes = 4, recvBytes = 7\<rparr>)]"
  using demo_checks(2) by (simp_all add: demo_end_check_def)

theorem no_slot_is_lost_witness:
  "ActiveLen (qheap (srv demo_mid) ! 0) = 1 \<and> ActiveLen (qheap (srv demo_end) ! 0) = 0 \<and> QueuedLen (qheap (srv demo_end) ! 0) = 0"
  using no_slot_is_lost [OF demo_end_run demo_events(1)] demo_end_facts demo_mid_facts(5) by simp

section \<open>The table of connections and the counters\<close>

text \<open>
  C24. At any time the counters and the table of connections tell the truth: the accepted
  connections are those that ever arrived, the active ones those whose \<open>handleConn\<close> has not
  ended, and (up to \<open>2^32\<close> arrivals, when the index wraps around) the table has exactly one entry for
  each of these, under the number of its arrival.
\<close>

theorem connections_accounted:
  assumes "run sys_step sys_init es S"
  shows "acceptedConnCount (srv S) = of_nat (length (conns S)) \<and>
    activeConnCount (srv S) = of_nat (length (filter live (conns S))) \<and> distinct (map fst (connInfo (srv S))) \<and>
    (length (conns S) < 2 ^ 32 \<longrightarrow>
       fst ` set (connInfo (srv S)) = {of_nat (Suc i) | i. i < length (conns S) \<and> live (conns S ! i)})"
proof -
  note B = reach_books_inv [OF assms]
  have "ridx ` set (filter live (conns S)) = {of_nat (Suc i) | i. i < length (conns S) \<and> live (conns S ! i)}"
    using books_invD(3) [OF B] by (force simp: in_set_conv_nth image_iff)
  with B show ?thesis by (simp add: books_inv_def Let_def)
qed

theorem connections_accounted_witness:
  "acceptedConnCount (srv demo_mid) = 2 \<and> activeConnCount (srv demo_mid) = 2 \<and> fst ` set (connInfo (srv demo_mid)) = {1, 2}"
proof -
  have l: "filter live (conns demo_mid) = conns demo_mid"
    using demo_mid_facts(1-3) by (auto simp: filter_id_conv in_set_conv_nth live_def less_2_cases_iff)
  have "i < length (conns demo_mid) \<and> live (conns demo_mid ! i) \<longleftrightarrow> i = 0 \<or> i = 1" for i
    using demo_mid_facts(1-3) by (auto simp: live_def less_2_cases_iff)
  then have "{i. i < length (conns demo_mid) \<and> live (conns demo_mid ! i)} = {0, 1}" by blast
  then have "(\<lambda>i. of_nat (Suc i) :: 32 word) ` {i. i < length (conns demo_mid) \<and> live (conns demo_mid ! i)} = {1, 2}" by simp
  then show ?thesis using connections_accounted [OF demo_mid_run] l demo_mid_facts(1) by (simp add: setcompr_eq_image)
qed

text \<open>
  C25. The totals of all finished relays are the sums of the counters per module and upstream, in
  64 bits, whatever the order in which the relays finish.
\<close>

theorem totals_add_up:
  assumes "run sys_step sys_init es S"
  shows "completedConnCount (srv S) = sum_list (map (\<lambda>x. completed (snd x)) (smoduleCounters (srv S))) \<and>
    sentBytesTotal (srv S) = sum_list (map (\<lambda>x. sentBytes (snd x)) (smoduleCounters (srv S))) \<and>
    recvBytesTotal (srv S) = sum_list (map (\<lambda>x. recvBytes (snd x)) (smoduleCounters (srv S)))"
  using reach_sums_inv [OF assms] by (simp add: sums_inv_def Let_def per_module.total_def)

theorem totals_add_up_witness:
  "smoduleCounters (srv demo_end) = [(Key ''foo'' ''u1'', \<lparr>completed = 1, sentBytes = 4, recvBytes = 7\<rparr>)] \<and>
   completedConnCount (srv demo_end) = 1 \<and> sentBytesTotal (srv demo_end) = 4 \<and> recvBytesTotal (srv demo_end) = 7"
proof -
  show ?thesis using totals_add_up [OF demo_end_run] demo_end_facts(4) by simp
qed

text \<open>
  C26. The page of metrics tells how many connections are open, by module and upstream: at any time the
  numbers of all groups add up to the number of connections whose \<open>handleConn\<close> has not ended.
\<close>

theorem page_counts_open_connections:
  assumes "run sys_step sys_init es S" and "length (conns S) < 2 ^ 32"
  shows "sum_list (map snd (connectionCounts (ListConnectionInfo (srv S)))) = length (filter live (conns S))"
  using counts_sum [of "ListConnectionInfo (srv S)"] length_connInfo [OF reach_books_inv [OF assms(1)] assms(2)] by simp

theorem page_counts_open_connections_witness:
  "sum_list (map snd (connectionCounts (ListConnectionInfo (srv demo_mid)))) = 2"
proof -
  have "filter live (conns demo_mid) = conns demo_mid"
    using demo_mid_facts(1-3) by (auto simp: filter_id_conv in_set_conv_nth live_def less_2_cases_iff)
  then show ?thesis using page_counts_open_connections [OF demo_mid_run] demo_mid_facts(1) by simp
qed

end
