(* ===== verification/Copying.thy ===== *)
theory Copying
  imports Books "HOL-Library.Sublist"
begin

text \<open>
  The copying of a relay: a round in one direction, how many rounds there can be, what is forwarded.
\<close>

section \<open>A round of copying\<close>

lemma conn_read_stream:
  assumes "conn_read k c = ((bs, e), c')"
  shows "stream c = bs @ stream c'" "sent c' = sent c" "wscript c' = wscript c" "connClosed c' = connClosed c"
proof -
  show "sent c' = sent c" "wscript c' = wscript c" "connClosed c' = connClosed c"
    using assms by (auto simp: conn_read_def split: list.splits prod.splits if_splits)
  show "stream c = bs @ stream c'"
  proof (cases "rscript c")
    case Nil
    with assms show ?thesis by (auto simp: conn_read_def stream_def)
  next
    case (Cons x xs)
    then obtain cs f where x: "x = (cs, f)" by (cases x)
    show ?thesis using assms Cons x append_take_drop_id [of k cs]
      by (auto simp: conn_read_def stream_def split: if_splits)
  qed
qed

lemma conn_write_stream:
  assumes "conn_write bs c = (e, c')"
  shows "stream c' = stream c" "\<exists>a. prefix a bs \<and> sent c' = sent c @ a" "wscript c = [] \<Longrightarrow> e = None \<and> sent c' = sent c @ bs \<and> wscript c' = []"
    "connClosed c' = connClosed c" "e = None \<Longrightarrow> sent c' = sent c @ bs"
  using assms by (auto simp: conn_write_def stream_def take_is_prefix split: list.splits option.splits prod.splits)

lemma live_write_stream:
  assumes "live_write bs c = (e, c')"
  shows "stream c' = stream c" "\<exists>p. prefix p bs \<and> sent c' = sent c @ p" "e = None \<Longrightarrow> sent c' = sent c @ bs"
proof -
  have closed: "e = Some ErrClosed \<and> c' = c" if "connClosed c" using assms that by (simp add: live_write_def)
  have opened: "conn_write bs c = (e, c')" if "\<not> connClosed c" using assms that by (simp add: live_write_def)
  show "stream c' = stream c" "\<exists>p. prefix p bs \<and> sent c' = sent c @ p" "e = None \<Longrightarrow> sent c' = sent c @ bs"
    by (cases "connClosed c"; use closed conn_write_stream [OF opened] in auto)+
qed

text \<open>
  A round takes \<open>a\<close> from the source and gives a part of it to the destination, all of it unless a
  write fails.
\<close>

lemma copy_round_stream:
  assumes "copy_round src dst = ((n, e), src', dst')"
  shows "\<exists>a. n = length a \<and> stream src = a @ stream src' \<and> (\<exists>p. prefix p a \<and> sent dst' = sent dst @ p \<and> (e \<in> {None, Some None} \<longrightarrow> p = a))"
    "sent src' = sent src" "stream dst' = stream dst"
proof -
  obtain bs er s1 where r: "live_read copyBufferSize src = ((bs, er), s1)" by (metis surj_pair)
  have R: "stream src = bs @ stream s1" "sent s1 = sent src"
    using r conn_read_stream [of copyBufferSize src bs er s1] by (auto simp: live_read_def split: if_splits)
  obtain ew d1 where w: "live_write bs dst = (ew, d1)" by (metis surj_pair)
  have W: "stream d1 = stream dst" "\<exists>p. prefix p bs \<and> sent d1 = sent dst @ p" "ew = None \<Longrightarrow> sent d1 = sent dst @ bs"
    using live_write_stream [OF w] by blast+
  have cr: "copy_round src dst = (if bs = [] then ((0, copy_end er), s1, dst)
      else case ew of Some x \<Rightarrow> ((length bs, Some (Some x)), s1, d1) | None \<Rightarrow> ((length bs, copy_end er), s1, d1))"
    by (simp add: copy_round_def r w split: option.split)
  show "\<exists>a. n = length a \<and> stream src = a @ stream src' \<and> (\<exists>p. prefix p a \<and> sent dst' = sent dst @ p \<and> (e \<in> {None, Some None} \<longrightarrow> p = a))"
  proof (cases "bs = []")
    case True
    then have "n = 0" "src' = s1" "dst' = dst" using assms cr by simp_all
    then show ?thesis using True R by auto
  next
    case False
    show ?thesis
    proof (cases ew)
      case None
      then have "n = length bs" "src' = s1" "dst' = d1" using assms cr False by simp_all
      then show ?thesis using R W(3) None by auto
    next
      case (Some x)
      then have x: "n = length bs" "src' = s1" "dst' = d1" "e = Some (Some x)" using assms cr False by simp_all
      obtain p where "prefix p bs" "sent d1 = sent dst @ p" using W(2) by blast
      then show ?thesis using R x by (intro exI [of _ bs]) simp
    qed
  qed
  show "sent src' = sent src" "stream dst' = stream dst"
    using assms cr R(2) W(1) by (auto split: if_splits option.splits)
qed

section \<open>Copying comes to an end\<close>

definition rsize :: "conn \<Rightarrow> nat" where
  "rsize c = sum_list (map (\<lambda>x. length (fst x) + 1) (rscript c))"

lemma conn_read_size:
  assumes "conn_read k c = ((bs, e), c')" "0 < k"
  shows "rscript c = [] \<and> bs = [] \<and> e = Some EOF \<and> c' = c \<or> rsize c' < rsize c"
  using assms by (auto simp: conn_read_def rsize_def split: list.splits prod.splits if_splits)

lemma copy_round_size:
  assumes "copy_round src dst = ((n, None), src', dst')"
  shows "rsize src' < rsize src"
proof -
  obtain bs er s1 where r: "live_read copyBufferSize src = ((bs, er), s1)" by (metis surj_pair)
  have s1: "src' = s1" and er: "er = None" using assms r by (auto simp: copy_round_def copy_end_def split: if_splits prod.splits option.splits)
  have "\<not> connClosed src" using r er by (auto simp: live_read_def)
  then have "conn_read copyBufferSize src = ((bs, er), s1)" using r by (simp add: live_read_def)
  from conn_read_size [OF this] er s1 show ?thesis by (simp add: copyBufferSize_def)
qed

lemma copy_round_other: "copy_round src dst = ((n, e), src', dst') \<Longrightarrow> rsize dst' = rsize dst \<and> rsize src' \<le> rsize src"
proof -
  assume a: "copy_round src dst = ((n, e), src', dst')"
  obtain bs er s1 where r: "live_read copyBufferSize src = ((bs, er), s1)" by (metis surj_pair)
  have "rsize s1 \<le> rsize src"
    using r conn_read_size [of copyBufferSize src bs er s1] by (auto simp: live_read_def copyBufferSize_def split: if_splits)
  moreover have "rsize (snd (live_write bs dst)) = rsize dst"
    by (auto simp: live_write_def conn_write_def rsize_def split: list.splits option.splits)
  ultimately show ?thesis using a r by (auto simp: copy_round_def split: if_splits prod.splits option.splits)
qed

text \<open>How many steps a relay can still make, once it copies.\<close>

definition rounds :: "bool \<Rightarrow> conn \<Rightarrow> nat" where
  "rounds ended c = (if ended then 0 else rsize c + 1)"

definition copy_work :: "relay \<Rightarrow> nat" where
  "copy_work r = (let u = the (up r) in case rpc r of
     PCopy a b \<Rightarrow> rounds a (down r) + rounds b u + 5 | PDrain a b \<Rightarrow> rounds a (down r) + rounds b u + 4
   | PFinish \<Rightarrow> 3 | PReturn e \<Rightarrow> 2 | PLeave e f \<Rightarrow> 1 | _ \<Rightarrow> 0)"

definition copies :: "relay \<Rightarrow> bool" where
  "copies r \<longleftrightarrow> (case rpc r of PCopy a b \<Rightarrow> up r \<noteq> None | PDrain a b \<Rightarrow> up r \<noteq> None
     | PFinish \<Rightarrow> True | PReturn e \<Rightarrow> True | PLeave e f \<Rightarrow> True | PDone \<Rightarrow> True | _ \<Rightarrow> False)"

lemma up_round_work:
  assumes "step_copy_up env s r = Some (s', r')"
  shows "copy_work r' < copy_work r \<and> copies r'"
proof -
  obtain b u where f: "flags (rpc r) = Some (False, b)" "up r = Some u"
    using assms by (auto simp: step_copy_up_def split: option.splits bool.splits)
  obtain n e d1 u1 where c: "copy_round (down r) u = ((n, e), d1, u1)" by (metis surj_pair)
  have r': "r' = r\<lparr>down := d1, up := Some u1, rpc := set_flags (rpc r) (e \<noteq> None) b\<rparr>"
    using assms f c by (simp add: step_copy_up_def)
  have "rounds (e \<noteq> None) d1 < rounds False (down r)" "rounds b u1 = rounds b u"
    using copy_round_other [OF c] copy_round_size [of "down r" u n d1 u1] c by (cases e; auto simp: rounds_def)+
  then show ?thesis using f r' by (cases "rpc r") (auto simp: copy_work_def copies_def flags_def Let_def)
qed

lemma down_round_work:
  assumes "step_copy_down env s r = Some (s', r')"
  shows "copy_work r' < copy_work r \<and> copies r'"
proof -
  obtain a u where f: "flags (rpc r) = Some (a, False)" "up r = Some u"
    using assms by (auto simp: step_copy_down_def split: option.splits bool.splits)
  obtain n e u1 d1 where c: "copy_round u (down r) = ((n, e), u1, d1)" by (metis surj_pair)
  have r': "r' = r\<lparr>down := d1, up := Some u1, rpc := set_flags (rpc r) a (e \<noteq> None)\<rparr>"
    using assms f c by (simp add: step_copy_down_def)
  have "rounds (e \<noteq> None) u1 < rounds False u" "rounds a d1 = rounds a (down r)"
    using copy_round_other [OF c] copy_round_size [of u "down r" n u1 d1] c by (cases e; auto simp: rounds_def)+
  then show ?thesis using f r' by (cases "rpc r") (auto simp: copy_work_def copies_def flags_def Let_def)
qed

lemma closed_work:
  "step_received_closed env res s r = Some (s', r') \<Longrightarrow> copy_work r' < copy_work r \<and> copies r'"
  "step_sent_closed env res s r = Some (s', r') \<Longrightarrow> copy_work r' < copy_work r \<and> copies r'"
  by (auto simp: step_received_closed_def step_sent_closed_def closeRead_def copy_work_def copies_def rounds_def rsize_def
      conn_close_def Let_def split: option.splits bool.splits prod.splits pc.splits if_splits)

lemma copies_step:
  assumes "relay_exec env (s, r) e = Some (s', r')" "copies r"
  shows "copy_work r' < copy_work r \<and> copies r'"
  using assms(1)
proof (cases rule: relay_exec_cases)
  case status
  then have "\<exists>st. rpc r = PFirst \<or> rpc r = PWait st" by (auto simp: step_receive_def Let_def split: option.splits pc.splits)
  with assms(2) show ?thesis by (auto simp: copies_def)
next
  case drained
  then show ?thesis by (simp add: copy_work_def copies_def rounds_def Let_def)
next
  case finish
  then have "rpc r' = PReturn None" by (auto simp: step_finish_def Let_def)
  with finish show ?thesis by (simp add: copy_work_def copies_def)
next
  case (returns x)
  then have "\<exists>e f. rpc r' = PLeave e f" by (auto simp: step_return_def Let_def split: option.splits sum.splits)
  with returns show ?thesis by (auto simp: copy_work_def copies_def)
next
  case (leave x f)
  then have "rpc r' = PDone" by (auto simp: step_leave_def Let_def)
  with leave show ?thesis by (simp add: copy_work_def copies_def)
next
  case up_round
  then show ?thesis by (rule up_round_work)
next
  case down_round
  then show ?thesis by (rule down_round_work)
next
  case received_closed
  then show ?thesis by (rule closed_work)
next
  case sent_closed
  then show ?thesis by (rule closed_work)
qed (use assms(2) in \<open>auto simp: copies_def step_tick_def split: pc.splits\<close>)

lemma copies_enabled:
  assumes "copies r" "rpc r \<noteq> PDone"
  shows "\<exists>e. relay_exec env (s, r) e \<noteq> None"
proof -
  have rounds: "\<not> a \<Longrightarrow> flags (rpc r) = Some (a, b) \<Longrightarrow> up r \<noteq> None \<Longrightarrow> relay_exec env (s, r) RCopyUp \<noteq> None"
    "\<not> b \<Longrightarrow> flags (rpc r) = Some (a, b) \<Longrightarrow> up r \<noteq> None \<Longrightarrow> relay_exec env (s, r) RCopyDown \<noteq> None" for a b
    by (auto simp: step_copy_up_def step_copy_down_def split: prod.splits)
  show ?thesis
  proof (cases "rpc r")
    case (PCopy a b)
    then have u: "up r \<noteq> None" "flags (rpc r) = Some (a, b)" using assms(1) by (auto simp: copies_def flags_def)
    show ?thesis
    proof (cases "a \<and> b")
      case True
      then have "relay_exec env (s, r) (RSentClosed None) \<noteq> None" using PCopy u by (auto simp: step_sent_closed_def split: prod.splits)
      then show ?thesis by blast
    qed (use rounds u in blast)
  next
    case (PDrain a b)
    then have u: "up r \<noteq> None" "flags (rpc r) = Some (a, b)" using assms(1) by (auto simp: copies_def flags_def)
    show ?thesis
    proof (cases "a \<and> b")
      case True
      then have "relay_exec env (s, r) RGo \<noteq> None" using PDrain by (simp add: relay_go_def)
      then show ?thesis by blast
    qed (use rounds u in blast)
  qed (use assms in \<open>auto simp: copies_def relay_go_def intro!: exI [of _ RGo]\<close>)
qed

text \<open>The steps of one relay while the others change the server in between.\<close>

inductive relay_run :: "relay \<Rightarrow> revent list \<Rightarrow> relay \<Rightarrow> bool" where
  relay_run_Nil: "relay_run r [] r"
| relay_run_snoc: "relay_run r es r1 \<Longrightarrow> relay_exec env (s, r1) e = Some (s', r2) \<Longrightarrow> relay_run r (es @ [e]) r2"

lemma relay_run_copies:
  assumes "relay_run r es r'" "copies r"
  shows "length es + copy_work r' \<le> copy_work r \<and> copies r'"
  using assms by (induction rule: relay_run.induct) (auto dest: copies_step)

lemma relay_run_Cons:
  assumes "relay_run r1 es r2" "relay_exec env (s, r) e = Some (s', r1)"
  shows "relay_run r (e # es) r2"
  using assms
proof (induction rule: relay_run.induct)
  case (relay_run_Nil r1)
  from relay_run_snoc [OF relay_run.relay_run_Nil this] show ?case by simp
next
  case (relay_run_snoc r1 es r2 env' t e' t' r3)
  from relay_run.relay_run_snoc [OF relay_run_snoc.IH [OF relay_run_snoc.prems] relay_run_snoc.hyps(2)] show ?case by simp
qed

lemma relay_execs_run: "relay_execs env (s, r) es = Some (s', r') \<Longrightarrow> relay_run r es r'"
proof (induction es arbitrary: s r)
  case Nil
  then show ?case by (simp add: relay_run_Nil)
next
  case (Cons e es)
  then obtain t q where x: "relay_exec env (s, r) e = Some (t, q)" "relay_execs env (t, q) es = Some (s', r')"
    by (auto split: option.splits)
  from relay_run_Cons [OF Cons.IH [OF x(2)] x(1)] show ?case .
qed

section \<open>What is forwarded\<close>

definition up_ended :: "relay \<Rightarrow> bool" where
  "up_ended r \<longleftrightarrow> (case flags (rpc r) of Some (a, b) \<Rightarrow> a | None \<Rightarrow> True)"

definition down_ended :: "relay \<Rightarrow> bool" where
  "down_ended r \<longleftrightarrow> (case flags (rpc r) of Some (a, b) \<Rightarrow> b | None \<Rightarrow> True)"

text \<open>
  One direction: \<open>a\<close> was taken from \<open>src\<close>, its prefix \<open>p\<close> went to \<open>dst\<close>; all of it, unless the copy
  has ended.
\<close>

definition fed :: "bool \<Rightarrow> conn \<Rightarrow> conn \<Rightarrow> conn \<Rightarrow> conn \<Rightarrow> bool" where
  "fed ended src dst src' dst' \<longleftrightarrow>
     (\<exists>a p. stream src = a @ stream src' \<and> prefix p a \<and> sent dst' = sent dst @ p \<and> (\<not> ended \<longrightarrow> p = a))"

lemma fed_refl: "stream src' = stream src \<Longrightarrow> sent dst' = sent dst \<Longrightarrow> fed x src dst src' dst'"
  by (auto simp: fed_def)

lemma fed_same: "fed x src dst src1 dst1 \<Longrightarrow> stream src' = stream src1 \<Longrightarrow> sent dst' = sent dst1 \<Longrightarrow> (x \<Longrightarrow> y) \<Longrightarrow> fed y src dst src' dst'"
  by (auto simp: fed_def)

lemma fed_round:
  assumes "fed False src dst src1 dst1" "copy_round src1 dst1 = ((n, e), src', dst')"
  shows "fed (e \<noteq> None) src dst src' dst'"
proof -
  obtain a where a: "stream src = a @ stream src1" "sent dst1 = sent dst @ a" using assms(1) by (auto simp: fed_def)
  obtain b p where b: "stream src1 = b @ stream src'" "prefix p b" "sent dst' = sent dst1 @ p" "e = None \<Longrightarrow> p = b"
    using copy_round_stream(1) [OF assms(2)] by auto
  show ?thesis unfolding fed_def
    by (rule exI [of _ "a @ b"], rule exI [of _ "a @ p"]) (use a b in auto)
qed

definition forwards :: "relay \<Rightarrow> relay \<Rightarrow> bool" where
  "forwards r r' \<longleftrightarrow> up r' \<noteq> None \<and> fed (up_ended r') (down r) (the (up r)) (down r') (the (up r')) \<and>
     fed (down_ended r') (the (up r)) (down r) (the (up r')) (down r')"

lemma forwards_same:
  assumes "forwards r r1" "up r' \<noteq> None" "stream (down r') = stream (down r1)" "sent (down r') = sent (down r1)"
    "stream (the (up r')) = stream (the (up r1))" "sent (the (up r')) = sent (the (up r1))"
    "up_ended r1 \<Longrightarrow> up_ended r'" "down_ended r1 \<Longrightarrow> down_ended r'"
  shows "forwards r r'"
  using assms fed_same unfolding forwards_def by blast

lemma forwards_up:
  assumes "forwards r r1" "step_copy_up env s r1 = Some (s', r')"
  shows "forwards r r'"
proof -
  obtain b u where f: "flags (rpc r1) = Some (False, b)" "up r1 = Some u"
    using assms(2) by (auto simp: step_copy_up_def split: option.splits bool.splits)
  obtain n e d1 u1 where c: "copy_round (down r1) u = ((n, e), d1, u1)" by (metis surj_pair)
  have r': "r' = r1\<lparr>down := d1, up := Some u1, rpc := set_flags (rpc r1) (e \<noteq> None) b\<rparr>"
    using assms(2) f c by (simp add: step_copy_up_def)
  have fl: "flags (rpc r') = Some (e \<noteq> None, b)" using f(1) by (cases "rpc r1") (auto simp: r' flags_def)
  have F: "fed False (down r) (the (up r)) (down r1) u" "fed b (the (up r)) (down r) u (down r1)"
    using assms(1) f by (simp_all add: forwards_def up_ended_def down_ended_def)
  have "fed (e \<noteq> None) (down r) (the (up r)) d1 u1" by (rule fed_round [OF F(1) c])
  moreover have "fed b (the (up r)) (down r) u1 d1"
    using fed_same [OF F(2)] copy_round_stream(2,3) [OF c] by simp
  ultimately show ?thesis using fl by (simp add: forwards_def up_ended_def down_ended_def) (simp add: r')
qed

lemma forwards_down:
  assumes "forwards r r1" "step_copy_down env s r1 = Some (s', r')"
  shows "forwards r r'"
proof -
  obtain a u where f: "flags (rpc r1) = Some (a, False)" "up r1 = Some u"
    using assms(2) by (auto simp: step_copy_down_def split: option.splits bool.splits)
  obtain n e u1 d1 where c: "copy_round u (down r1) = ((n, e), u1, d1)" by (metis surj_pair)
  have r': "r' = r1\<lparr>down := d1, up := Some u1, rpc := set_flags (rpc r1) a (e \<noteq> None)\<rparr>"
    using assms(2) f c by (simp add: step_copy_down_def)
  have fl: "flags (rpc r') = Some (a, e \<noteq> None)" using f(1) by (cases "rpc r1") (auto simp: r' flags_def)
  have F: "fed a (down r) (the (up r)) (down r1) u" "fed False (the (up r)) (down r) u (down r1)"
    using assms(1) f by (simp_all add: forwards_def up_ended_def down_ended_def)
  have "fed (e \<noteq> None) (the (up r)) (down r) u1 d1" by (rule fed_round [OF F(2) c])
  moreover have "fed a (down r) (the (up r)) d1 u1"
    using fed_same [OF F(1)] copy_round_stream(2,3) [OF c] by simp
  ultimately show ?thesis using fl by (simp add: forwards_def up_ended_def down_ended_def) (simp add: r')
qed

lemma closeRead_stream: "closeRead res c l = (e, c') \<Longrightarrow> stream c' = stream c \<and> sent c' = sent c"
  by (auto simp: closeRead_def Let_def stream_def split: if_splits)

lemma conn_close_stream [simp]: "stream (conn_close c) = stream c" "sent (conn_close c) = sent c"
  by (simp_all add: conn_close_def stream_def)

lemma forwards_closed:
  "forwards r r1 \<Longrightarrow> step_received_closed env res s r1 = Some (s', r') \<Longrightarrow> forwards r r'"
  "forwards r r1 \<Longrightarrow> step_sent_closed env res s r1 = Some (s', r') \<Longrightarrow> forwards r r'"
  by (erule forwards_same; auto simp: step_received_closed_def step_sent_closed_def up_ended_def down_ended_def flags_def
      split: option.splits bool.splits prod.splits pc.splits dest: closeRead_stream)+

lemma forwards_step:
  assumes "forwards r r1" "copies r1" "relay_exec env (s, r1) e = Some (s', r')"
  shows "forwards r r'"
  using assms(3)
proof (cases rule: relay_exec_cases)
  case status
  then have "\<exists>st. rpc r1 = PFirst \<or> rpc r1 = PWait st" by (auto simp: step_receive_def Let_def split: option.splits pc.splits)
  with assms(2) show ?thesis by (auto simp: copies_def)
next
  case drained
  then show ?thesis using assms(1) by (intro forwards_same [OF assms(1)]) (simp_all add: forwards_def up_ended_def down_ended_def flags_def)
next
  case finish
  then have "r' = r1\<lparr>rpc := PReturn None\<rparr>" by (auto simp: step_finish_def Let_def)
  with assms(1) show ?thesis by (intro forwards_same [OF assms(1)]) (simp_all add: forwards_def up_ended_def down_ended_def flags_def)
next
  case (returns x)
  then have "\<exists>e f. r' = r1\<lparr>up := map_option conn_close (up r1), rpc := PLeave e f\<rparr>"
    by (auto simp: step_return_def Let_def split: option.splits sum.splits)
  then obtain e f where r': "r' = r1\<lparr>up := map_option conn_close (up r1), rpc := PLeave e f\<rparr>" by blast
  obtain u where "up r1 = Some u" using assms(1) by (auto simp: forwards_def)
  then show ?thesis by (intro forwards_same [OF assms(1)]) (simp_all add: r' up_ended_def down_ended_def flags_def)
next
  case (leave x f)
  then have "r' = r1\<lparr>down := conn_close (down r1), rpc := PDone\<rparr>" by (auto simp: step_leave_def Let_def)
  with assms(1) show ?thesis by (intro forwards_same [OF assms(1)]) (simp_all add: forwards_def up_ended_def down_ended_def flags_def)
next
  case up_round
  with assms(1) show ?thesis by (rule forwards_up)
next
  case down_round
  with assms(1) show ?thesis by (rule forwards_down)
next
  case received_closed
  with assms(1) show ?thesis by (rule forwards_closed)
next
  case sent_closed
  with assms(1) show ?thesis by (rule forwards_closed)
qed (use assms(2) in \<open>auto simp: copies_def step_tick_def split: pc.splits\<close>)

lemma relay_run_forwards:
  assumes "relay_run r es r'" "copies r" "up r \<noteq> None"
  shows "forwards r r' \<and> copies r'"
  using assms
proof (induction rule: relay_run.induct)
  case (relay_run_Nil r)
  then show ?case by (simp add: forwards_def fed_refl)
next
  case (relay_run_snoc r es r1 env s e s' r2)
  then show ?case using forwards_step copies_step by blast
qed

section \<open>What is counted\<close>

text \<open>
  While it copies, what a relay has counted and what is still to be read add up to the same two
  numbers \<open>n\<close> (from the client) and \<open>m\<close> (from the upstream); once it has finished, the sums have
  grown by what it counted.
\<close>

definition counting :: "Server \<Rightarrow> uint64 \<Rightarrow> uint64 \<Rightarrow> Server \<times> relay \<Rightarrow> bool" where
  "counting s0 n m sr = (case sr of (s, r) \<Rightarrow> copies r \<and> up r \<noteq> None \<and>
     (let restd = of_nat (length (stream (down r))); restu = of_nat (length (stream (the (up r)))) in
      if flags (rpc r) \<noteq> None \<or> rpc r = PFinish then
        sums s = sums s0 \<and> (\<exists>c. info_of s r = Some c \<and> ReceivedBytes c + restd = n \<and> SentBytes c + restu = m)
      else sums s = added (moduleName r, Upstream (rtarget r)) (m - restu) (n - restd) s0))"

lemma countingI:
  assumes "copies r" "up r = Some u" "flags (rpc r) \<noteq> None \<or> rpc r = PFinish" "sums s = sums s0" "info_of s r = Some c"
    "ReceivedBytes c + of_nat (length (stream (down r))) = n" "SentBytes c + of_nat (length (stream u)) = m"
  shows "counting s0 n m (s, r)"
  using assms by (simp add: counting_def Let_def)

lemma countingD:
  assumes "counting s0 n m (s, r)"
  obtains u where "copies r" "up r = Some u"
    "flags (rpc r) \<noteq> None \<or> rpc r = PFinish \<Longrightarrow> sums s = sums s0 \<and> (\<exists>c. info_of s r = Some c \<and>
       ReceivedBytes c + of_nat (length (stream (down r))) = n \<and> SentBytes c + of_nat (length (stream u)) = m)"
    "\<not> (flags (rpc r) \<noteq> None \<or> rpc r = PFinish) \<Longrightarrow> sums s = added (moduleName r, Upstream (rtarget r))
       (m - of_nat (length (stream u))) (n - of_nat (length (stream (down r)))) s0"
proof -
  obtain u where "up r = Some u" using assms by (auto simp: counting_def)
  with assms show thesis by (intro that [of u]) (simp_all add: counting_def Let_def split: if_splits)
qed

lemma info_frame [simp]:
  "info_of (logAccess x s) r = info_of s r" "info_of (logError x s) r = info_of s r"
  "info_of (log_copy env d y s) r = info_of s r" "info_of (log_close env d z s) r = info_of s r"
  by (simp_all add: info_of_def logAccess_def logError_def log_copy_def log_close_def split: option.splits)

lemma info_upd: "info_of s r = Some c \<Longrightarrow> info_of (upd_info (ridx r) f s) r = Some (f c)"
  by (simp add: info_of_def upd_info_def map_of_map_entry)

lemma counting_up:
  assumes "counting s0 n m (s, r)" "step_copy_up env s r = Some (s', r')"
  shows "counting s0 n m (s', r')"
proof -
  obtain b u where f: "flags (rpc r) = Some (False, b)" "up r = Some u"
    using assms(2) by (auto simp: step_copy_up_def split: option.splits bool.splits)
  obtain k e d1 u1 where c: "copy_round (down r) u = ((k, e), d1, u1)" by (metis surj_pair)
  have r': "r' = r\<lparr>down := d1, up := Some u1, rpc := set_flags (rpc r) (e \<noteq> None) b\<rparr>"
    and s': "s' = log_copy env ''downstream to upstream'' e (upd_info (ridx r) (\<lambda>c. c\<lparr>ReceivedBytes := ReceivedBytes c + of_nat k\<rparr>) s)"
    using assms(2) f c by (simp_all add: step_copy_up_def)
  obtain a where a: "k = length a" "stream (down r) = a @ stream d1" "stream u1 = stream u" using copy_round_stream(1,3) [OF c] by blast
  from assms(1) obtain i where i: "sums s = sums s0" "info_of s r = Some i"
    "ReceivedBytes i + of_nat (length (stream (down r))) = n" "SentBytes i + of_nat (length (stream u)) = m"
    by (rule countingD) (use f in auto)
  have info: "info_of s' r' = Some (i\<lparr>ReceivedBytes := ReceivedBytes i + of_nat k\<rparr>)"
    using info_upd [OF i(2)] by (simp add: s') (simp add: r' info_of_def)
  show ?thesis
  proof (rule countingI [OF _ _ _ _ info])
    show "copies r'" using up_round_work [OF assms(2)] by simp
    show "up r' = Some u1" by (simp add: r')
    show "flags (rpc r') \<noteq> None \<or> rpc r' = PFinish" using f(1) by (cases "rpc r") (auto simp: r' flags_def)
    show "sums s' = sums s0" using copy_ledger(1) [OF assms(2)] i(1) by (simp add: ledger_def)
  qed (use i(3,4) a in \<open>simp_all add: r' algebra_simps\<close>)
qed

lemma counting_down:
  assumes "counting s0 n m (s, r)" "step_copy_down env s r = Some (s', r')"
  shows "counting s0 n m (s', r')"
proof -
  obtain a u where f: "flags (rpc r) = Some (a, False)" "up r = Some u"
    using assms(2) by (auto simp: step_copy_down_def split: option.splits bool.splits)
  obtain k e u1 d1 where c: "copy_round u (down r) = ((k, e), u1, d1)" by (metis surj_pair)
  have r': "r' = r\<lparr>down := d1, up := Some u1, rpc := set_flags (rpc r) a (e \<noteq> None)\<rparr>"
    and s': "s' = log_copy env ''upstream to downstream'' e (upd_info (ridx r) (\<lambda>c. c\<lparr>SentBytes := SentBytes c + of_nat k\<rparr>) s)"
    using assms(2) f c by (simp_all add: step_copy_down_def)
  obtain b where b: "k = length b" "stream u = b @ stream u1" "stream d1 = stream (down r)" using copy_round_stream(1,3) [OF c] by blast
  from assms(1) obtain i where i: "sums s = sums s0" "info_of s r = Some i"
    "ReceivedBytes i + of_nat (length (stream (down r))) = n" "SentBytes i + of_nat (length (stream u)) = m"
    by (rule countingD) (use f in auto)
  have info: "info_of s' r' = Some (i\<lparr>SentBytes := SentBytes i + of_nat k\<rparr>)"
    using info_upd [OF i(2)] by (simp add: s') (simp add: r' info_of_def)
  show ?thesis
  proof (rule countingI [OF _ _ _ _ info])
    show "copies r'" using down_round_work [OF assms(2)] by simp
    show "up r' = Some u1" by (simp add: r')
    show "flags (rpc r') \<noteq> None \<or> rpc r' = PFinish" using f(1) by (cases "rpc r") (auto simp: r' flags_def)
    show "sums s' = sums s0" using copy_ledger(2) [OF assms(2)] i(1) by (simp add: ledger_def)
  qed (use i(3,4) b in \<open>simp_all add: r' algebra_simps\<close>)
qed

lemma counting_finish:
  assumes "counting s0 n m (s, r)" "rpc r = PFinish" "step_finish env s r = (s', r')"
  shows "counting s0 n m (s', r')"
proof -
  from assms(1) obtain u i where i: "up r = Some u" "sums s = sums s0" "info_of s r = Some i"
    "ReceivedBytes i + of_nat (length (stream (down r))) = n" "SentBytes i + of_nat (length (stream u)) = m"
    by (rule countingD) (use assms(2) in auto)
  have r': "r' = r\<lparr>rpc := PReturn None\<rparr>" using assms(3) by (auto simp: step_finish_def Let_def)
  have "sums s' = added (moduleName r, Upstream (rtarget r)) (SentBytes i) (ReceivedBytes i) s"
    using finish_ledger(3) [OF assms(3)] i(3) by simp
  also have "\<dots> = added (moduleName r, Upstream (rtarget r)) (SentBytes i) (ReceivedBytes i) s0"
    using i(2) by (simp add: added_def sums_def)
  moreover have "SentBytes i = m - of_nat (length (stream u))" "ReceivedBytes i = n - of_nat (length (stream (down r)))"
    using i(4,5) by (auto simp: algebra_simps)
  ultimately show ?thesis using i(1) by (simp add: counting_def r' flags_def copies_def)
qed

lemma counting_quiet:
  assumes "counting s0 n m (s, r)" "copies r'" "up r' = Some u'" "sums s' = sums s" "info_of s' r' = info_of s r"
    and "moduleName r' = moduleName r" "rtarget r' = rtarget r"
    and "stream (down r') = stream (down r)" "stream u' = stream (the (up r))"
    and "flags (rpc r') \<noteq> None \<or> rpc r' = PFinish \<longleftrightarrow> flags (rpc r) \<noteq> None \<or> rpc r = PFinish"
  shows "counting s0 n m (s', r')"
proof (cases "flags (rpc r) \<noteq> None \<or> rpc r = PFinish")
  case True
  from assms(1) obtain u i where i: "up r = Some u" "sums s = sums s0" "info_of s r = Some i"
    "ReceivedBytes i + of_nat (length (stream (down r))) = n" "SentBytes i + of_nat (length (stream u)) = m"
    by (rule countingD) (use True in auto)
  show ?thesis
    by (rule countingI [where u = u' and c = i]) (use i True assms in simp_all)
next
  case False
  with assms show ?thesis by (simp add: counting_def Let_def)
qed

lemma counting_leave:
  assumes "counting s0 n m (s, r)" "rpc r = PLeave x f" "step_leave env s r x f = (s', r')"
  shows "counting s0 n m (s', r')"
proof -
  have r': "r' = r\<lparr>down := conn_close (down r), rpc := PDone\<rparr>" using assms(3) by (auto simp: step_leave_def Let_def)
  have "sums s' = sums s" using leave_ledger [OF assms(3)] by simp
  with assms(1,2) show ?thesis by (simp add: counting_def r' flags_def copies_def)
qed

lemma counting_return:
  assumes "counting s0 n m (s, r)" "rpc r = PReturn x" "step_return s r x None = (s', r')"
  shows "counting s0 n m (s', r')"
proof -
  have "\<exists>e f. r' = r\<lparr>up := map_option conn_close (up r), rpc := PLeave e f\<rparr>"
    using assms(3) by (auto simp: step_return_def Let_def split: option.splits sum.splits)
  then obtain e f where r': "r' = r\<lparr>up := map_option conn_close (up r), rpc := PLeave e f\<rparr>" by blast
  have "sums s' = sums s" using return_ledger [OF assms(3)] by (simp add: ledger_def)
  with assms(1,2) show ?thesis by (auto simp: counting_def r' flags_def copies_def)
qed

lemma counting_closed:
  assumes "counting s0 n m (s, r)" "step_received_closed env res s r = Some (s', r') \<or> step_sent_closed env res s r = Some (s', r')"
  shows "counting s0 n m (s', r')"
proof -
  have "copies r'" using assms(2) closed_work by blast
  moreover have "sums s' = sums s" using assms(2) copy_ledger(3,4) by (auto simp: ledger_def)
  moreover have "\<exists>u'. up r' = Some u' \<and> stream u' = stream (the (up r)) \<and> info_of s' r' = info_of s r \<and> moduleName r' = moduleName r \<and>
      rtarget r' = rtarget r \<and> stream (down r') = stream (down r) \<and> flags (rpc r') \<noteq> None \<and> flags (rpc r) \<noteq> None"
    using assms(2)
    by (auto simp: step_received_closed_def step_sent_closed_def flags_def info_of_def
        log_close_def logError_def split: option.splits bool.splits prod.splits pc.splits dest: closeRead_stream)
  ultimately show ?thesis using counting_quiet [OF assms(1)] by metis
qed

lemma counting_step:
  assumes "counting s0 n m (s, r)" "relay_exec env (s, r) e = Some (s', r')"
  shows "counting s0 n m (s', r')"
proof -
  have c: "copies r" using assms(1) by (auto elim: countingD)
  from assms(2) show ?thesis
  proof (cases rule: relay_exec_cases)
    case status
    then have "\<exists>st. rpc r = PFirst \<or> rpc r = PWait st" by (auto simp: step_receive_def Let_def split: option.splits pc.splits)
    with c show ?thesis by (auto simp: copies_def)
  next
    case drained
    from assms(1) obtain u where u: "up r = Some u" by (rule countingD)
    show ?thesis
      by (rule counting_quiet [OF assms(1), of _ u]) (use drained u in \<open>simp_all add: copies_def flags_def info_of_def\<close>)
  next
    case finish
    then show ?thesis using counting_finish [OF assms(1)] by blast
  next
    case returns
    then show ?thesis using counting_return [OF assms(1)] by blast
  next
    case leave
    then show ?thesis using counting_leave [OF assms(1)] by blast
  next
    case up_round
    then show ?thesis using counting_up [OF assms(1)] by blast
  next
    case down_round
    then show ?thesis using counting_down [OF assms(1)] by blast
  next
    case received_closed
    then show ?thesis using counting_closed [OF assms(1)] by blast
  next
    case sent_closed
    then show ?thesis using counting_closed [OF assms(1)] by blast
  qed (use c in \<open>auto simp: copies_def step_tick_def split: pc.splits\<close>)
qed

lemma counting_execs:
  assumes "relay_execs env (s, r) es = Some (s', r')" "counting s0 n m (s, r)"
  shows "counting s0 n m (s', r')"
  using assms
proof (induction es arbitrary: s r)
  case (Cons e es)
  then obtain t q where x: "relay_exec env (s, r) e = Some (t, q)" "relay_execs env (t, q) es = Some (s', r')"
    by (auto split: option.splits)
  from Cons.IH [OF x(2) counting_step [OF Cons.prems(2) x(1)]] show ?case .
qed simp

lemma copies_target:
  assumes "relay_exec env (s, r) e = Some (s', r')" "copies r"
  shows "moduleName r' = moduleName r \<and> rtarget r' = rtarget r"
  using assms(1)
proof (cases rule: relay_exec_cases)
  case finish
  then show ?thesis by (auto simp: step_finish_def Let_def)
next
  case returns
  then show ?thesis by (auto simp: step_return_def Let_def split: option.splits sum.splits)
next
  case leave
  then show ?thesis by (auto simp: step_leave_def Let_def)
next
  case up_round
  then show ?thesis by (auto simp: step_copy_up_def split: option.splits bool.splits prod.splits)
next
  case down_round
  then show ?thesis by (auto simp: step_copy_down_def split: option.splits bool.splits prod.splits)
next
  case received_closed
  then show ?thesis by (auto simp: step_received_closed_def split: option.splits bool.splits prod.splits pc.splits)
next
  case sent_closed
  then show ?thesis by (auto simp: step_sent_closed_def split: option.splits bool.splits prod.splits pc.splits)
qed (use assms(2) in \<open>auto simp: copies_def step_tick_def step_receive_def Let_def split: option.splits pc.splits\<close>)

lemma execs_target:
  assumes "relay_execs env (s, r) es = Some (s', r')" "copies r"
  shows "moduleName r' = moduleName r \<and> rtarget r' = rtarget r"
  using assms
proof (induction es arbitrary: s r)
  case (Cons e es)
  then obtain t q where x: "relay_exec env (s, r) e = Some (t, q)" "relay_execs env (t, q) es = Some (s', r')"
    by (auto split: option.splits)
  have "copies q" using copies_step [OF x(1) Cons.prems(2)] by simp
  with Cons.IH [OF x(2)] copies_target [OF x(1) Cons.prems(2)] show ?case by simp
qed simp

end
