(* ===== verification/Progress.thy ===== *)
theory Progress
  imports SystemProps Copying
begin

text \<open>
  Every connection can go on: at each point of \<open>relay\<close> where it is not waiting for somebody, the
  next step is there. The only point where it might not be is the first receive from the queue:
  \<open>Acquire\<close> must have left a status in the channel, and nobody else may take it away.
\<close>

section \<open>The first status\<close>





section \<open>Relays at their first receive\<close>









section \<open>Progress and preservation\<close>










end
