(* ===== verification/RelayProps.thy ===== *)
theory RelayProps
  imports Copying ServerProps DiscoveryProps "HOL-Library.Code_Target_Nat"
begin

text \<open>Properties of one relay: that the copying ends, what it forwards and counts, what it answers.\<close>

section \<open>A relay to try things on\<close>

definition demo_relay :: relay where
  "demo_relay = \<lparr>rpc = PCopy False False, ridx = 1, down = test_conn [''request'', '' more''], up = Some (test_conn [''data'']),
     rsyncdClientVersion = ''@RSYNCD: 31.0'' @ [LF], request = ''foo'' @ [LF], moduleName = ''foo'',
     rtarget = \<lparr>Upstream = ''u1'', Addr = ''10.0.0.1:873'', UseProxyProtocol = False\<rparr>, rqueue = Some 0, rhandle = Some 0\<rparr>"

definition demo_info :: ConnInfo where
  "demo_info = \<lparr>connIdx = 1, connLocal = ''10.0.0.1:873'', connRemote = ''10.0.0.2:873'', ConnectedAt = 0, connModule = ''foo'',
     connUpstream = ''u1'', SentBytes = 0, ReceivedBytes = 0\<rparr>"

definition demo_relay_server :: Server where
  "demo_relay_server = NewServer\<lparr>connInfo := [(1, demo_info)], qheap := [snd (projr (Acquire (New 1 1)))]\<rparr>"

definition no_env :: relayenv where
  "no_env = \<lparr>rdial = (\<lambda>n a. Inl (IOError ''connection refused'')), rquote = (\<lambda>s. s), rduration = ''1s''\<rparr>"

definition demo_copying :: "revent list" where
  "demo_copying = [RCopyUp, RCopyDown, RCopyUp, RCopyDown, RReceivedClosed None, RCopyUp]"

definition demo_copied :: "Server \<times> relay" where
  "demo_copied = the (relay_execs no_env (demo_relay_server, demo_relay) demo_copying)"

lemma demo_copied: "relay_execs no_env (demo_relay_server, demo_relay) demo_copying = Some (fst demo_copied, snd demo_copied)"
proof -
  have "\<not> Option.is_none (relay_execs no_env (demo_relay_server, demo_relay) demo_copying)" by code_simp
  then show ?thesis by (auto simp: demo_copied_def Option.is_none_def)
qed


section \<open>The end of the copying\<close>





text \<open>
  C10. A relay that has finished is counted once, with exactly the bytes it took from each side, in
  the totals and in the counters of its module and upstream.
\<close>

theorem counted_exactly:
  assumes "relay_execs env (s, r) es = Some (s', r')" and "rpc r = PCopy False False" and "up r = Some u"
    and "info_of s r = Some c" and "ReceivedBytes c = 0" and "SentBytes c = 0" and "rpc r' = PDone"
  shows "\<exists>u' a b. up r' = Some u' \<and> stream (down r) = a @ stream (down r') \<and> stream u = b @ stream u' \<and>
    completedConnCount s' = completedConnCount s + 1 \<and> recvBytesTotal s' = recvBytesTotal s + of_nat (length a) \<and>
    sentBytesTotal s' = sentBytesTotal s + of_nat (length b) \<and>
    smoduleCounters s' =
      count_relay (moduleName r, Upstream (rtarget r)) (of_nat (length b)) (of_nat (length a)) (smoduleCounters s)"
proof -
  let ?n = "of_nat (length (stream (down r))) :: uint64" and ?m = "of_nat (length (stream u)) :: uint64"
  have cp: "copies r" using assms(2,3) by (simp add: copies_def)
  have "counting s ?n ?m (s, r)"
    by (rule countingI [OF cp assms(3) _ refl assms(4)]) (simp_all add: assms(2,5,6) flags_def)
  from counting_execs [OF assms(1) this] have fin: "counting s ?n ?m (s', r')" .
  from fin obtain u' where u': "up r' = Some u'" and sm: "sums s' = added (moduleName r', Upstream (rtarget r'))
      (?m - of_nat (length (stream u'))) (?n - of_nat (length (stream (down r')))) s"
    by (rule countingD) (use assms(7) in \<open>simp add: flags_def\<close>)
  have "forwards r r'" using relay_run_forwards [OF relay_execs_run [OF assms(1)] cp] assms(3) by simp
  then obtain a b where ab: "stream (down r) = a @ stream (down r')" "stream u = b @ stream u'"
    using u' assms(3) by (auto simp: forwards_def fed_def)
  have "sums s' = added (moduleName r, Upstream (rtarget r)) (of_nat (length b)) (of_nat (length a)) s"
    using sm ab execs_target [OF assms(1) cp] by simp
  with u' ab show ?thesis by (auto simp: sums_def added_def)
qed

definition demo_finished :: "Server \<times> relay" where
  "demo_finished = the (relay_execs no_env demo_copied [RGo, RGo, RGo, RGo])"

lemma relay_execs_append: "relay_execs env x (es @ fs) = (case relay_execs env x es of None \<Rightarrow> None | Some y \<Rightarrow> relay_execs env y fs)"
  by (induction es arbitrary: x) (auto split: option.split)

lemma demo_finished:
  "relay_execs no_env (demo_relay_server, demo_relay) (demo_copying @ [RGo, RGo, RGo, RGo]) = Some (fst demo_finished, snd demo_finished)"
proof -
  have "\<not> Option.is_none (relay_execs no_env demo_copied [RGo, RGo, RGo, RGo])" by code_simp
  then show ?thesis using demo_copied by (auto simp: relay_execs_append demo_finished_def Option.is_none_def)
qed

theorem counted_exactly_witness:
  "recvBytesTotal (fst demo_finished) = 12 \<and> sentBytesTotal (fst demo_finished) = 4"
proof -
  have d: "rpc demo_relay = PCopy False False" "up demo_relay = Some (test_conn [''data''])" "info_of demo_relay_server demo_relay = Some demo_info"
    "ReceivedBytes demo_info = 0" "SentBytes demo_info = 0" "recvBytesTotal demo_relay_server = 0" "sentBytesTotal demo_relay_server = 0"
    "stream (down demo_relay) = ''request more''"
    by (simp_all add: demo_relay_def info_of_def demo_relay_server_def demo_info_def NewServer_def Let_def)
  have e: "rpc (snd demo_finished) = PDone" "stream (down (snd demo_finished)) = []" "stream (the (up (snd demo_finished))) = []"
    by code_simp+
  show ?thesis using counted_exactly [OF demo_finished d(1-5) e(1)] d(6-8) e(2,3) by auto
qed

end
