(* ===== verification/AnswerProps.thy ===== *)
theory AnswerProps
  imports RelayProps QueueProps
begin

text \<open>What a relay reads from its client and its upstream before it copies, and what it answers.\<close>

section \<open>The client's two lines\<close>

text \<open>The client sends a line in pieces, whose last one is not empty, and then waits.\<close>

definition sends_line :: "string list \<Rightarrow> string \<Rightarrow> bool" where
  "sends_line bss l \<longleftrightarrow> concat bss = l @ [LF] \<and> LF \<notin> set l \<and> length l < ReadBufferSize \<and> last bss \<noteq> []"

lemma readLine_sends_line:
  assumes "sends_line bss l" "rscript c = map (\<lambda>b. (b, None)) bss @ later"
  obtains c' where "readLine c ReadBufferSize t = Some ((l @ [LF], None), c')" "rscript c' = later" "read_frame c' = read_frame c"
proof -
  have "bss \<noteq> []" using assms(1) by (auto simp: sends_line_def)
  with readLine_loop_message [of c bss later "[]" l ReadBufferSize t] assms that show thesis
    by (auto simp: readLine_def sends_line_def)
qed

text \<open>A piece that ends in a newline and fits is returned as a whole.\<close>

lemma readLine_piece:
  assumes "rscript c = (l, None) # later" "length l \<le> mx" "l \<noteq> []" "last l = LF"
  obtains c' where "readLine c mx t = Some ((l, None), c')" "rscript c' = later" "read_frame c' = read_frame c"
proof -
  let ?c = "(if 0 < t then c\<lparr>rarmed := True\<rparr> else c)\<lparr>rscript := later\<rparr>"
  have "armed_read t mx c = ((l, None), ?c)" using assms(1,2) by (simp add: armed_read_def conn_read_def)
  then show thesis using assms(3,4)
    by (intro that [of ?c]) (simp_all add: readLine_def readLine_loop.simps [of _ mx "[]"] read_frame_def)
qed

lemma read_frameD: "read_frame c' = read_frame c \<Longrightarrow> sent c' = sent c \<and> wscript c' = wscript c \<and> connClosed c' = connClosed c \<and>
    remoteAddr c' = remoteAddr c"
  by (simp add: read_frame_def)

lemma relay_greet_ok:
  assumes "rscript c = map (\<lambda>b. (b, None)) bss @ map (\<lambda>b. (b, None)) bss' @ later"
    and "sends_line bss (RsyncdVersionPrefix @ v)" "sends_line bss' d" "writes_ok c"
  obtains c' where "relay_greet rt wt c = Some (Inr (RsyncdVersionPrefix @ v @ [LF], d @ [LF]), c')"
    "sent c' = sent c @ RsyncdServerVersion" "rscript c' = later" "writes_ok c'" "remoteAddr c' = remoteAddr c"
proof -
  obtain c1 where c1: "readLine c ReadBufferSize rt = Some (((RsyncdVersionPrefix @ v) @ [LF], None), c1)"
    "rscript c1 = map (\<lambda>b. (b, None)) bss' @ later" "read_frame c1 = read_frame c"
    by (rule readLine_sends_line [OF assms(2,1)])
  have w1: "writes_ok c1" using assms(4) read_frameD [OF c1(3)] by (simp add: writes_ok_def)
  obtain c2 where c2: "writeWithTimeout c1 RsyncdServerVersion wt = (None, c2)" "sent c2 = sent c1 @ RsyncdServerVersion"
    "rscript c2 = rscript c1" "writes_ok c2" "write_frame c2 = write_frame c1"
    using writeWithTimeout_ok [OF w1] by blast
  obtain c3 where c3: "readLine c2 ReadBufferSize rt = Some ((d @ [LF], None), c3)" "rscript c3 = later" "read_frame c3 = read_frame c2"
    by (rule readLine_sends_line [OF assms(3)]) (use c1(2) c2(3) in simp)
  have p: "hasPrefix (RsyncdVersionPrefix @ v @ [LF]) RsyncdVersionPrefix" by (simp add: hasPrefix_iff)
  show thesis
  proof (rule that)
    show "relay_greet rt wt c = Some (Inr (RsyncdVersionPrefix @ v @ [LF], d @ [LF]), c3)"
      using c1(1) c2(1) c3(1) p by (simp add: relay_greet_def)
    show "sent c3 = sent c @ RsyncdServerVersion"
      using read_frameD [OF c1(3)] read_frameD [OF c3(3)] c2(2) by simp
    show "writes_ok c3" using c2(4) read_frameD [OF c3(3)] by (simp add: writes_ok_def)
    show "remoteAddr c3 = remoteAddr c" 
      using read_frameD [OF c1(3)] read_frameD [OF c3(3)] c2(5) by (simp add: write_frame_def)
  qed (rule c3(2))
qed


definition new_relay :: "string list \<Rightarrow> relay" where
  "new_relay bss = snd (accept 0 (test_conn bss) NewServer)"

lemma new_relay_simps [simp]: "rpc (new_relay bss) = PGreet" "rscript (down (new_relay bss)) = map (\<lambda>b. (b, None)) bss"
  "writes_ok (down (new_relay bss))" "sent (down (new_relay bss)) = []"
  by (simp_all add: new_relay_def accept_def Let_def test_conn_def writes_ok_def)

lemma sends_demo: "sends_line [''@RSYN'', ''CD: 31.0'', [LF]] (RsyncdVersionPrefix @ '' 31.0'')" "sends_line [''deb'', ''ian'' @ [LF]] ''debian''"
  "sends_line [[LF]] []"
  by code_simp+


section \<open>The list\<close>

lemma motd_sent:
  assumes "writes_ok (down r)"
  obtains c' where "step_motd s r = r\<lparr>down := c', rpc := PRoute\<rparr>" "sent c' = sent (down r) @ (if Motd s = [] then [] else Motd s @ [LF])"
    "writes_ok c'" "rscript c' = rscript (down r)" "remoteAddr c' = remoteAddr (down r)"
proof (cases "Motd s = []")
  case True
  with assms show thesis by (intro that [of "down r"]) (simp_all add: step_motd_def)
next
  case False
  obtain c' where c': "writeWithTimeout (down r) (Motd s @ [LF]) (WriteTimeout s) = (None, c')" "sent c' = sent (down r) @ Motd s @ [LF]"
    "writes_ok c'" "rscript c' = rscript (down r)" "write_frame c' = write_frame (down r)"
    using writeWithTimeout_ok [OF assms] by blast
  show thesis
  proof (rule that)
    show "step_motd s r = r\<lparr>down := c', rpc := PRoute\<rparr>" using c'(1) False by (simp add: step_motd_def)
  qed (use c' False in \<open>simp_all add: write_frame_def\<close>)
qed

text \<open>The first two steps of a client that speaks the protocol.\<close>

lemma greeted:
  assumes "rpc r = PGreet" and "rscript (down r) = map (\<lambda>b. (b, None)) bss @ map (\<lambda>b. (b, None)) bss' @ later"
    and "sends_line bss (RsyncdVersionPrefix @ v)" and "sends_line bss' d" and "writes_ok (down r)"
  obtains r' where "relay_execs env (s, r) [RGo, RGo] = Some (s, r')" "rpc r' = PRoute" "request r' = d @ [LF]"
    "sent (down r') = sent (down r) @ RsyncdServerVersion @ (if Motd s = [] then [] else Motd s @ [LF])" "writes_ok (down r')"
    "rscript (down r') = later" "ridx r' = ridx r" "up r' = up r" "remoteAddr (down r') = remoteAddr (down r)"
proof -
  obtain c' where c': "relay_greet (ReadTimeout s) (WriteTimeout s) (down r) = Some (Inr (RsyncdVersionPrefix @ v @ [LF], d @ [LF]), c')"
    "sent c' = sent (down r) @ RsyncdServerVersion" "rscript c' = later" "writes_ok c'" "remoteAddr c' = remoteAddr (down r)"
    by (rule relay_greet_ok [OF assms(2-5)])
  define r1 where "r1 = r\<lparr>down := c', rsyncdClientVersion := RsyncdVersionPrefix @ v @ [LF], request := d @ [LF], rpc := PMotd\<rparr>"
  have g: "relay_exec env (s, r) RGo = Some (s, r1)" using c'(1) assms(1) by (simp add: relay_go_def step_greet_def r1_def)
  obtain c2 where c2: "step_motd s r1 = r1\<lparr>down := c2, rpc := PRoute\<rparr>" "sent c2 = sent (down r1) @ (if Motd s = [] then [] else Motd s @ [LF])"
    "writes_ok c2" "rscript c2 = rscript (down r1)" "remoteAddr c2 = remoteAddr (down r1)"
    by (rule motd_sent [of r1]) (simp add: r1_def c'(4))
  have m: "relay_exec env (s, r1) RGo = Some (s, step_motd s r1)" by (simp add: relay_go_def r1_def)
  show thesis by (rule that [of "step_motd s r1"]) (use g m c2 c' in \<open>simp_all add: r1_def\<close>)
qed

text \<open>
  C14. A client that sends an empty line gets exactly the list: after the greeting the message of
  the day, if there is one, on lines of its own, the names of all modules in order and the exit
  line, and the relay is over.
\<close>

theorem list_answered:
  assumes "rpc r = PGreet" and "rscript (down r) = map (\<lambda>b. (b, None)) bss @ map (\<lambda>b. (b, None)) bss' @ later"
    and "sends_line bss (RsyncdVersionPrefix @ v)" and "sends_line bss' []" and "writes_ok (down r)"
  shows "\<exists>s' r'. relay_execs env (s, r) [RGo, RGo, RGo] = Some (s', r') \<and> rpc r' = PReturn None \<and> up r' = up r \<and>
    sent (down r') = sent (down r) @ proxy_answer (Motd s) (map fst (smodules s)) \<and> ledger s' = ledger s \<and> qheap s' = qheap s"
proof -
  obtain r2 where r2: "relay_execs env (s, r) [RGo, RGo] = Some (s, r2)" "rpc r2 = PRoute" "request r2 = [LF]" "up r2 = up r"
    "sent (down r2) = sent (down r) @ RsyncdServerVersion @ (if Motd s = [] then [] else Motd s @ [LF])" "writes_ok (down r2)"
    by (rule greeted [OF assms]) simp
  define s1 where "s1 = logAccess (''client '' @ client_addr r2 @ '' requests listing all modules'') s"
  have s1: "smodules s1 = smodules s" "ledger s1 = ledger s" "qheap s1 = qheap s" by (simp_all add: s1_def) (simp_all add: logAccess_def)
  obtain c where c: "listAllModules (smodules s1) (WriteTimeout s1) (down r2) = (None, c)" "sent c = sent (down r2) @ listing (map fst (smodules s))"
    using writeWithTimeout_ok [OF r2(6)] s1(1) by (force simp: listAllModules_def)
  have st: "relay_exec env (s, r2) RGo = Some (s1, r2\<lparr>down := c, rpc := PReturn None\<rparr>)"
    using r2(2,3) c(1) unfolding s1_def by (simp add: relay_go_def step_route_def Let_def)
  have "relay_execs env (s, r) ([RGo, RGo] @ [RGo]) = Some (s1, r2\<lparr>down := c, rpc := PReturn None\<rparr>)"
    unfolding relay_execs_append r2(1) using st by simp
  then show ?thesis using c(2) r2(4,5) s1 by (simp add: proxy_answer_def)
qed

lemma demo_modules: "map fst (smodules demo_server) = [''foo'', ''bar''] \<or> map fst (smodules demo_server) = [''bar'', ''foo'']"
  "Motd demo_server = ''hello''"
  by code_simp+

theorem list_answered_witness:
  "\<exists>s' r'. relay_execs no_env (demo_server, new_relay [''@RSYN'', ''CD: 31.0'', [LF], [LF]]) [RGo, RGo, RGo] = Some (s', r') \<and>
     sent (down r') = RsyncdServerVersion @ ''hello'' @ [LF] @ ''bar'' @ [LF] @ ''foo'' @ [LF] @ RsyncdExit"
proof -
  have l: "listing (map fst (smodules demo_server)) = ''bar'' @ [LF] @ ''foo'' @ [LF] @ RsyncdExit" by code_simp
  show ?thesis
    using list_answered [of "new_relay [''@RSYN'', ''CD: 31.0'', [LF], [LF]]" _ "[[LF]]" "[]" _ no_env demo_server, OF _ _ sends_demo(1,3)]
      l demo_modules(2) by (auto simp: proxy_answer_def)
qed

section \<open>A module there is not\<close>

text \<open>
  C15. A request for a module there is not is refused at once: the client gets the error line the
  rsync client takes for a failure, the refusal is counted, no queue is entered and no upstream
  contacted.
\<close>

theorem unknown_module_refused:
  assumes "rpc r = PRoute" and "request r = m @ [LF]" and "m \<noteq> []" and "getTargetsForModule s m = None" and "writes_ok (down r)"
  shows "\<exists>s' r'. relay_exec env (s, r) RGo = Some (s', r') \<and> rpc r' = PReturn None \<and> up r' = up r \<and> rqueue r' = rqueue r \<and>
    sent (down r') = sent (down r) @ ''@ERROR: Unknown module '' @ [CHR 0x27] @ m @ [CHR 0x27, LF] \<and>
    unknownModuleCount s' = unknownModuleCount s + 1 \<and> qheap s' = qheap s \<and> sums s' = sums s"
proof -
  obtain c where c: "writeWithTimeout (down r) (unknown_module m) (WriteTimeout s) = (None, c)" "sent c = sent (down r) @ unknown_module m"
    using writeWithTimeout_ok [OF assms(5)] by blast
  have g: "getTargetsForModule (SetModule (ridx r) m s) m = None"
    using assms(4) by (simp add: getTargetsForModule_def SetModule_def upd_info_def)
  have f: "sums (s\<lparr>unknownModuleCount := k\<rparr>) = sums s" "sums (SetModule i m s) = sums s" "unknownModuleCount (SetModule i m s) = unknownModuleCount s"
    "sums (logAccess x s) = sums s" "unknownModuleCount (logAccess x s) = unknownModuleCount s" for k i x s
    by (simp_all add: sums_def SetModule_def upd_info_def logAccess_def)
  show ?thesis
    using assms(1-3) c g by (auto simp: relay_go_def step_route_def Let_def f unknown_module_def)
qed

theorem unknown_module_refused_witness:
  "\<exists>s' r'. relay_exec no_env (demo_server, (new_relay [])\<lparr>rpc := PRoute, request := ''nope'' @ [LF]\<rparr>) RGo = Some (s', r') \<and>
     unknownModuleCount s' = 1"
proof -
  have "getTargetsForModule demo_server ''nope'' = None" "unknownModuleCount demo_server = 0" by code_simp+
  then show ?thesis
    using unknown_module_refused [of "(new_relay [])\<lparr>rpc := PRoute, request := ''nope'' @ [LF]\<rparr>" "''nope''" demo_server no_env] by auto
qed

section \<open>A request that fills the buffer\<close>

text \<open>
  C40. A request line that is longer than the buffer is not refused: the relay takes its first 256
  bytes for the whole line and drops the last of them as if it were the newline, so the module it
  goes on with is one that the client never named.
\<close>

theorem long_request_misread:
  assumes "rpc r = PGreet" and "rscript (down r) = map (\<lambda>b. (b, None)) bss @ (d @ rest, None) # later"
    and "sends_line bss (RsyncdVersionPrefix @ v)" and "length d = ReadBufferSize" and "LF \<notin> set d" and "writes_ok (down r)"
    and "Motd s = []" and "getTargetsForModule s (butlast d) = Some ts" and "routes_ok s"
  shows "\<exists>s' r'. relay_execs env (s, r) [RGo, RGo, RGo] = Some (s', r') \<and> rpc r' = PAcquire \<and> request r' = d \<and> moduleName r' = butlast d"
proof -
  let ?c = "down r"
  obtain c1 where c1: "readLine ?c ReadBufferSize (ReadTimeout s) = Some (((RsyncdVersionPrefix @ v) @ [LF], None), c1)"
    "rscript c1 = (d @ rest, None) # later" "read_frame c1 = read_frame ?c"
    by (rule readLine_sends_line [OF assms(3,2)])
  have w1: "writes_ok c1" using assms(6) read_frameD [OF c1(3)] by (simp add: writes_ok_def)
  obtain c2 where c2: "writeWithTimeout c1 RsyncdServerVersion (WriteTimeout s) = (None, c2)" "rscript c2 = (d @ rest, None) # later"
    using writeWithTimeout_ok [OF w1] c1(2) by metis
  have d: "d \<noteq> []" "last d \<noteq> LF" using assms(4,5) by (auto simp: ReadBufferSize_def) (metis last_in_set list.size(3) zero_neq_numeral)
  obtain c3 where c3: "readLine c2 ReadBufferSize (ReadTimeout s) = Some ((d, None), c3)"
  proof -
    let ?c2 = "if 0 < ReadTimeout s then c2\<lparr>rarmed := True\<rparr> else c2"
    have "rscript ?c2 = (d @ rest, None) # later" using c2(2) by simp
    then have "\<exists>x. conn_read ReadBufferSize ?c2 = ((d, None), x)"
      using assms(4) by (cases "rest = []") (simp_all add: conn_read_def)
    then obtain x where "armed_read (ReadTimeout s) ReadBufferSize c2 = ((d, None), x)" by (auto simp: armed_read_def)
    then show thesis using d assms(4) by (intro that [of x]) (simp add: readLine_def readLine_loop.simps [of _ ReadBufferSize "[]"])
  qed
  have p: "hasPrefix (RsyncdVersionPrefix @ v @ [LF]) RsyncdVersionPrefix" by (simp add: hasPrefix_iff)
  have gr: "relay_greet (ReadTimeout s) (WriteTimeout s) ?c = Some (Inr (RsyncdVersionPrefix @ v @ [LF], d), c3)"
    using c1(1) c2(1) c3 p d(1) by (simp add: relay_greet_def)
  define r1 where "r1 = r\<lparr>down := c3, rsyncdClientVersion := RsyncdVersionPrefix @ v @ [LF], request := d, rpc := PMotd\<rparr>"
  have g1: "relay_exec env (s, r) RGo = Some (s, r1)" using gr assms(1) by (simp add: relay_go_def step_greet_def r1_def)
  have g2: "relay_exec env (s, r1) RGo = Some (s, r1\<lparr>rpc := PRoute\<rparr>)"
    using assms(7) by (simp add: relay_go_def r1_def step_motd_def)
  have "ts \<noteq> []" using assms(8,9) by (auto simp: routes_ok_def getTargetsForModule_def buildModuleTargets_lookup split: if_splits)
  then have i: "\<not> length ts \<le> chooseTargetByClientIP (ParseIP (client_ip r1)) (length ts)" using choose_less_length by (simp add: not_le)
  have g: "getTargetsForModule (SetModule (ridx r) (butlast d) s) (butlast d) = Some ts"
    using assms(8) by (simp add: getTargetsForModule_def SetModule_def upd_info_def)
  have "length d \<noteq> 1" using assms(4) by (simp add: ReadBufferSize_def)
  then have "\<exists>s' r'. relay_exec env (s, r1\<lparr>rpc := PRoute\<rparr>) RGo = Some (s', r') \<and> rpc r' = PAcquire \<and> request r' = d \<and> moduleName r' = butlast d"
    using g i by (simp add: relay_go_def step_route_def Let_def r1_def client_ip_def)
  then show ?thesis using g1 g2 by auto
qed

definition long_name :: string where
  "long_name = replicate 255 (CHR ''a'')"

definition long_conf :: Config where
  "long_conf = \<lparr>Proxy = demo_proxy\<lparr>pMotd := []\<rparr>, Upstreams = [(''u1'', demo_up ''10.0.0.1:873'' [long_name] 30)]\<rparr>"

lemma long_loads: "loadConfig demo_env long_conf True NewServer = Some (None, loaded long_conf NewServer)"
  by (rule loadedI) code_simp

lemma long_server: "Motd (loaded long_conf NewServer) = []"
  "\<not> Option.is_none (getTargetsForModule (loaded long_conf NewServer) long_name)" "wf_map (Upstreams long_conf)"
  by code_simp+

theorem long_request_misread_witness:
  "\<exists>s' r'. relay_execs no_env (loaded long_conf NewServer, new_relay [''@RSYNCD: 31.0'' @ [LF], long_name @ ''b/'' @ [LF]]) [RGo, RGo, RGo] =
     Some (s', r') \<and> rpc r' = PAcquire \<and> moduleName r' = long_name"
proof -
  obtain ts where ts: "getTargetsForModule (loaded long_conf NewServer) long_name = Some ts"
    using long_server(2) by (auto simp: Option.is_none_def)
  have ok: "routes_ok (loaded long_conf NewServer)" using loaded_ok [OF long_loads NewServer_ok(2) long_server(3)] by simp
  have d: "LF \<notin> set (long_name @ ''b'')" "butlast (long_name @ ''b'') = long_name" "length (long_name @ ''b'') = ReadBufferSize"
    "sends_line [''@RSYNCD: 31.0'' @ [LF]] (RsyncdVersionPrefix @ '' 31.0'')"
    by code_simp+
  show ?thesis
    using long_request_misread [of "new_relay [''@RSYNCD: 31.0'' @ [LF], long_name @ ''b/'' @ [LF]]" "[''@RSYNCD: 31.0'' @ [LF]]" "long_name @ ''b''"
        "''/'' @ [LF]" "[]" "'' 31.0''" "loaded long_conf NewServer" ts no_env] ts ok d long_server(1) by auto
qed

section \<open>Admission\<close>

text \<open>What a relay makes of each of the three first statuses.\<close>

lemma on_first_ok: "on_first s r w okStatus = (s, r\<lparr>rpc := PConnect\<rparr>)"
  by (simp add: on_first_def okStatus_def)

lemma on_first_full:
  assumes "writes_ok (down r)" "on_first s r w fullStatus = (s', r')"
  shows "rpc r' = PReturn None" "sent (down r') = sent (down r) @ queue_full_notice @ RsyncdExit" "qheap s' = qheap s"
    "supstreamCounters s' = count_queueFull (Upstream (rtarget r)) (supstreamCounters s)"
proof -
  obtain c1 where c1: "writeWithTimeout (down r) queue_full_notice (WriteTimeout s) = (None, c1)" "sent c1 = sent (down r) @ queue_full_notice" "writes_ok c1"
    using writeWithTimeout_ok [OF assms(1)] by blast
  obtain c2 where c2: "writeWithTimeout c1 RsyncdExit (WriteTimeout s) = (None, c2)" "sent c2 = sent c1 @ RsyncdExit"
    using writeWithTimeout_ok [OF c1(3)] by blast
  show "rpc r' = PReturn None" "sent (down r') = sent (down r) @ queue_full_notice @ RsyncdExit" "qheap s' = qheap s"
    "supstreamCounters s' = count_queueFull (Upstream (rtarget r)) (supstreamCounters s)"
    using assms(2) c1 c2 by (auto simp: on_first_def fullStatus_def Let_def logAccess_def)
qed

lemma on_first_wait:
  assumes "writes_ok (down r)" "on_first s r w st = (s', r')" "\<not> Ok st" "\<not> Full st"
  shows "rpc r' = PWait st" "qheap s' = qheap s"
    "sent (down r') = sent (down r) @ limit_notice (Upstream (rtarget r)) (GetMax w) @ position_notice st"
proof -
  obtain c1 where c1: "writeWithTimeout (down r) (limit_notice (Upstream (rtarget r)) (GetMax w) @ position_notice st) (WriteTimeout s) = (None, c1)"
    "sent c1 = sent (down r) @ limit_notice (Upstream (rtarget r)) (GetMax w) @ position_notice st"
    using writeWithTimeout_ok [OF assms(1)] by blast
  show "rpc r' = PWait st" "qheap s' = qheap s"
    "sent (down r') = sent (down r) @ limit_notice (Upstream (rtarget r)) (GetMax w) @ position_notice st"
    using assms(2-4) c1 by (auto simp: on_first_def send_notice_def logAccess_def)
qed

text \<open>
  C11. What becomes of a client at the queue of its upstream. With room it goes on to the upstream;
  if the line is full it is told so, the rejection is counted and the relay is over; otherwise it
  is told the limit, its position and the length of the line, and waits.
\<close>

theorem admission_answered:
  assumes "rpc r = PAcquire" and "upstreamQueues s (Upstream (rtarget r)) = Some q" and "queues_ok s" and "writes_ok (down r)"
    and "w = qheap s ! q" and "n = Upstream (rtarget r)"
  shows "\<exists>s' r'. relay_execs env (s, r) [RGo, RStatus] = Some (s', r') \<and>
    (if GetMax w = 0 \<or> ActiveLen w < GetMax w
     then rpc r' = PConnect \<and> sent (down r') = sent (down r) \<and> ActiveLen (qheap s' ! q) = ActiveLen w + 1
     else if 0 < GetMaxQueued w \<and> GetMaxQueued w \<le> QueuedLen w
     then rpc r' = PReturn None \<and> supstreamCounters s' = count_queueFull n (supstreamCounters s) \<and> que (qheap s' ! q) = que w \<and>
       sent (down r') = sent (down r) @ ''Server queue is full for this upstream. Please retry later.'' @ [LF] @ RsyncdExit
     else (\<exists>st. rpc r' = PWait st) \<and> QueuedLen (qheap s' ! q) = QueuedLen w + 1 \<and>
       sent (down r') = sent (down r) @ ''Upstream '' @ n @ '' has reached the maximum number of '' @ show_int (GetMax w) @
         '' connections. Your request is being queued.'' @ [LF] @
         ''Your position: '' @ show_int (ActiveLen w - GetMax w + QueuedLen w + 1) @
         '', Total queued: '' @ show_int (ActiveLen w - GetMax w + QueuedLen w + 1) @ [LF])"
proof -
  have q: "q < length (qheap s)" "queue_inv w" using assms(2,3,5) by (auto simp: queues_ok_def)
  obtain h w1 where a: "Acquire w = Inr (h, w1)" using Acquire_Inr [OF q(2)] by blast
  obtain st w2 where st: "Recv h w1 = Some (st, w2)" "que w2 = que w1" and
    outcome: "if GetMax w = 0 \<or> ActiveLen w < GetMax w
     then st = okStatus \<and> ActiveLen w1 = ActiveLen w + 1 \<and> QueuedLen w1 = QueuedLen w
     else if 0 < GetMaxQueued w \<and> GetMaxQueued w \<le> QueuedLen w
     then st = fullStatus \<and> que w1 = que w
     else st = \<lparr>Index = ActiveLen w - GetMax w + QueuedLen w, Total = ActiveLen w - GetMax w + QueuedLen w + 1, Ok = False, Full = False\<rparr> \<and>
       ActiveLen w1 = ActiveLen w \<and> QueuedLen w1 = QueuedLen w + 1 \<and> qmax (que w1) = qmax (que w)"
    using Acquire_recv [OF q(2) a] by blast
  define s1 where "s1 = s\<lparr>qheap := (qheap s)[q := w1]\<rparr>"
  define r1 where "r1 = r\<lparr>rqueue := Some q, rhandle := Some h, rpc := PFirst\<rparr>"
  have g1: "relay_exec env (s, r) RGo = Some (s1, r1)"
    using assms(1,2,5) a by (simp add: relay_go_def step_acquire_def getQueueForUpstream_def s1_def r1_def)
  define s2 where "s2 = s\<lparr>qheap := (qheap s)[q := w2]\<rparr>"
  have g2: "relay_exec env (s1, r1) RStatus = Some (on_first s2 r1 w2 st)"
    using q(1) st by (simp add: step_receive_def receive_def r1_def s1_def s2_def Let_def)
  have x: "relay_execs env (s, r) [RGo, RStatus] = Some (on_first s2 r1 w2 st)" using g1 g2 by (simp split: prod.split)
  have len: "ActiveLen w2 = ActiveLen w1" "QueuedLen w2 = QueuedLen w1" using st(2) by (simp_all add: ActiveLen_def QueuedLen_def)
  have qh: "qheap s2 ! q = w2" "supstreamCounters s2 = supstreamCounters s" "WriteTimeout s2 = WriteTimeout s" using q(1) by (simp_all add: s2_def)
  have d1: "down r1 = down r" "rtarget r1 = rtarget r" "writes_ok (down r1)" using assms(4) by (simp_all add: r1_def)
  obtain s' r' where f: "on_first s2 r1 w2 st = (s', r')" by (metis surj_pair)
  consider (room) "GetMax w = 0 \<or> ActiveLen w < GetMax w" | (full) "\<not> (GetMax w = 0 \<or> ActiveLen w < GetMax w)" "0 < GetMaxQueued w \<and> GetMaxQueued w \<le> QueuedLen w"
    | (queued) "\<not> (GetMax w = 0 \<or> ActiveLen w < GetMax w)" "\<not> (0 < GetMaxQueued w \<and> GetMaxQueued w \<le> QueuedLen w)" by blast
  then show ?thesis
  proof cases
    case room
    then have o: "st = okStatus" "ActiveLen w2 = ActiveLen w + 1" using outcome len by simp_all
    then show ?thesis using x f qh d1 room on_first_ok [of s2 r1 w2] by auto
  next
    case full
    then have o: "st = fullStatus" "que w2 = que w" using outcome st(2) by simp_all
    from on_first_full [OF d1(3) f [unfolded o(1)]] show ?thesis
      using x f o qh d1 full assms(6) by (simp add: queue_full_notice_def)
  next
    case queued
    then have o: "st = \<lparr>Index = ActiveLen w - GetMax w + QueuedLen w, Total = ActiveLen w - GetMax w + QueuedLen w + 1, Ok = False, Full = False\<rparr>"
      "QueuedLen w2 = QueuedLen w + 1" "GetMax w2 = GetMax w"
      using outcome st(2) len by (simp_all add: GetMax_def)
    have "\<not> Ok st" "\<not> Full st" by (simp_all add: o(1))
    from on_first_wait [OF d1(3) f this] show ?thesis
      using x f o qh d1 queued assms(6) by (simp add: limit_notice_def position_notice_def)
  qed
qed

theorem admission_answered_witness:
  "\<exists>s' r'. relay_execs no_env (demo_server, (new_relay [])\<lparr>rpc := PAcquire, rtarget := \<lparr>Upstream = ''u2'', Addr = [], UseProxyProtocol = False\<rparr>\<rparr>)
     [RGo, RStatus] = Some (s', r') \<and> rpc r' = PConnect \<and> ActiveLen (qheap s' ! 1) = 1"
proof -
  have q: "upstreamQueues demo_server ''u2'' = Some 1" "GetMax (qheap demo_server ! 1) = 60" "ActiveLen (qheap demo_server ! 1) = 0" by code_simp+
  let ?r = "(new_relay [])\<lparr>rpc := PAcquire, rtarget := \<lparr>Upstream = ''u2'', Addr = [], UseProxyProtocol = False\<rparr>\<rparr>"
  have r: "rpc ?r = PAcquire" "upstreamQueues demo_server (Upstream (rtarget ?r)) = Some 1" "writes_ok (down ?r)" using q by simp_all
  from admission_answered [OF r(1,2) demo_ok(1) r(3) refl refl, of no_env] q show ?thesis by auto
qed

section \<open>The upstream\<close>

text \<open>
  C12. The handshake with the upstream: it gets the PROXY header if it wants one, the client's own
  version line and the module, nothing else; what it sent after its version line goes on to the
  client, what it sends later is left for the copying, and the copying starts without deadlines.
\<close>

theorem upstream_handshake:
  assumes "rpc r = PConnect" and "dialContextTCPOrUnix (rdial env) (Addr (rtarget r)) = Inr u"
    and "if UseProxyProtocol (rtarget r) then generateProxyProtocolHeader (remoteAddr (down r)) (remoteAddr u) = Inr h else h = []"
    and "rscript u = (RsyncdVersionPrefix @ v @ [LF] @ m, None) # later" and "LF \<notin> set v"
    and "length (RsyncdVersionPrefix @ v @ [LF] @ m) \<le> ReadBufferSize" and "last ([LF] @ m) = LF"
    and "writes_ok u" and "writes_ok (down r)"
  shows "\<exists>s' r' u'. relay_exec env (s, r) RGo = Some (s', r') \<and> rpc r' = PCopy False False \<and> up r' = Some u' \<and>
    sent u' = sent u @ h @ rsyncdClientVersion r @ moduleName r @ [LF] \<and> rscript u' = later \<and>
    sent (down r') = sent (down r) @ m \<and> rscript (down r') = rscript (down r) \<and>
    \<not> rarmed u' \<and> \<not> warmed u' \<and> \<not> rarmed (down r') \<and> \<not> warmed (down r')"
proof -
  let ?t = "rtarget r" and ?wt = "WriteTimeout s" and ?rt = "ReadTimeout s" and ?v = "RsyncdVersionPrefix @ v @ [LF] @ m"
  obtain u1 where u1: "(if UseProxyProtocol ?t then writeProxyProtocolHeader u (remoteAddr (down r)) (remoteAddr u) ?wt else (None, u)) = (None, u1)"
    "sent u1 = sent u @ h" "rscript u1 = rscript u" "writes_ok u1"
    using writeWithTimeout_ok [OF assms(8)] assms(3,8) by (cases "UseProxyProtocol ?t") (auto simp: writeProxyProtocolHeader_def)
  obtain u2 where u2: "writeWithTimeout u1 (rsyncdClientVersion r) ?wt = (None, u2)" "sent u2 = sent u1 @ rsyncdClientVersion r"
    "rscript u2 = rscript u1" "writes_ok u2"
    using writeWithTimeout_ok [OF u1(4)] by blast
  obtain u3 where u3: "readLine u2 ReadBufferSize ?rt = Some ((?v, None), u3)" "rscript u3 = later" "read_frame u3 = read_frame u2"
    by (rule readLine_piece [of u2 ?v later]) (use assms(4,6,7) u1(3) u2(3) in auto)
  have w3: "writes_ok u3" using u2(4) read_frameD [OF u3(3)] by (simp add: writes_ok_def)
  have "LF \<notin> set (RsyncdVersionPrefix @ v)" using assms(5) by (simp add: RsyncdVersionPrefix_def)
  then have "indexByte LF ?v = Some (length (RsyncdVersionPrefix @ v))"
    using indexByte_append [of LF "RsyncdVersionPrefix @ v" m] by simp
  moreover have "drop (Suc (length (RsyncdVersionPrefix @ v))) ?v = m" by simp
  ultimately obtain k where k: "hasPrefix ?v RsyncdVersionPrefix" "indexByte LF ?v = Some k" "drop (Suc k) ?v = m"
    by (simp add: hasPrefix_iff)
  obtain d1 where d1: "(if m = [] then (None, down r) else writeWithTimeout (down r) m ?wt) = (None, d1)" "sent d1 = sent (down r) @ m"
    "rscript d1 = rscript (down r)"
    using writeWithTimeout_ok [OF assms(9), of m ?wt] by (cases "m = []") auto
  obtain u4 where u4: "writeWithTimeout u3 (moduleName r @ [LF]) ?wt = (None, u4)" "sent u4 = sent u3 @ moduleName r @ [LF]" "rscript u4 = rscript u3"
    using writeWithTimeout_ok [OF w3] by blast
  have hello: "upstream_hello ?rt ?wt r u = Some (None, d1, u4)"
    by (simp only: upstream_hello_def Let_def u1(1) u2(1) u3(1) prod.case option.case k d1(1) u4(1) if_False not_True_eq_False)
  have "sent u3 = sent u2" using read_frameD [OF u3(3)] by simp
  with assms(1,2) hello u1 u2 u3 d1 u4 show ?thesis
    by (simp add: relay_go_def step_connect_def clear_deadline_def)
qed

definition demo_upstream :: conn where
  "demo_upstream = test_conn [''@RSYNCD: 31.0'' @ [LF] @ ''Welcome'' @ [LF], ''data'']"

definition demo_dialer :: relayenv where
  "demo_dialer = \<lparr>rdial = (\<lambda>n a. Inr demo_upstream), rquote = (\<lambda>s. s), rduration = ''1s''\<rparr>"

definition demo_client :: relay where
  "demo_client = (new_relay [''request''])\<lparr>rpc := PConnect, rsyncdClientVersion := ''@RSYNCD: 31.0'' @ [LF], moduleName := ''debian'',
     rtarget := \<lparr>Upstream = ''u1'', Addr = ''10.0.0.2:873'', UseProxyProtocol = True\<rparr>\<rparr>"

theorem upstream_handshake_witness:
  "\<exists>s' r' u'. relay_exec demo_dialer (demo_server, demo_client) RGo = Some (s', r') \<and> up r' = Some u' \<and>
     sent u' = ''PROXY TCP4 10.0.0.2 10.0.0.2 873 873'' @ [CR, LF] @ ''@RSYNCD: 31.0'' @ [LF] @ ''debian'' @ [LF] \<and>
     sent (down r') = ''Welcome'' @ [LF]"
proof -
  have c: "rpc demo_client = PConnect" "dialContextTCPOrUnix (rdial demo_dialer) (Addr (rtarget demo_client)) = Inr demo_upstream"
    "rscript demo_upstream = [(RsyncdVersionPrefix @ '' 31.0'' @ [LF] @ ''Welcome'' @ [LF], None), (''data'', None)]"
    "LF \<notin> set '' 31.0''" "length (RsyncdVersionPrefix @ '' 31.0'' @ [LF] @ ''Welcome'' @ [LF]) \<le> ReadBufferSize"
    "last ([LF] @ ''Welcome'' @ [LF]) = LF" "writes_ok demo_upstream" "writes_ok (down demo_client)" "sent demo_upstream = []"
    "sent (down demo_client) = []" "rsyncdClientVersion demo_client = ''@RSYNCD: 31.0'' @ [LF]" "moduleName demo_client = ''debian''"
    by (simp_all add: demo_client_def demo_upstream_def demo_dialer_def dialContextTCPOrUnix_def RsyncdVersionPrefix_def ReadBufferSize_def)
      (simp add: test_conn_def)
  have "generateProxyProtocolHeader (remoteAddr (down demo_client)) (remoteAddr demo_upstream) =
      Inr (''PROXY TCP4 10.0.0.2 10.0.0.2 873 873'' @ [CR, LF])" "UseProxyProtocol (rtarget demo_client)"
    by code_simp+
  then have h: "if UseProxyProtocol (rtarget demo_client) then generateProxyProtocolHeader (remoteAddr (down demo_client)) (remoteAddr demo_upstream) =
      Inr (''PROXY TCP4 10.0.0.2 10.0.0.2 873 873'' @ [CR, LF]) else ''PROXY TCP4 10.0.0.2 10.0.0.2 873 873'' @ [CR, LF] = []" by simp
  from upstream_handshake [OF c(1,2) h c(3-8), of demo_server] c(9-12) show ?thesis by auto
qed

end
