(* ===== verification/Http.thy ===== *)
theory Http
  imports Metrics
begin

text \<open>
  \<open>runHTTPServer\<close> of \<open>pkg/server/server.go\<close>: the five handlers. A request is its method, path and
  decoded query, a response its status and the value that is encoded as its body; \<open>net/http\<close>,
  \<open>encoding/json\<close> and the collector of process metrics are parameters.
\<close>

section \<open>Requests and responses\<close>

record httpreq =
  rmethod :: string
  rpath :: string
  rquery :: "string \<rightharpoonup> string list"

datatype httpbody =
    NoBody | MessageBody string | ModulesBody "string list" | StatusBody nat "connInfoSnapshot list" | TextBody string

record httpresp =
  rstatus :: nat
  rbody :: httpbody

definition reply :: "nat \<Rightarrow> httpbody \<Rightarrow> httpresp" where
  "reply c b = \<lparr>rstatus = c, rbody = b\<rparr>"

text \<open>What the handlers use of the outside; \<open>hnow\<close> is in nanoseconds.\<close>

record httpenv =
  hload :: loadenv
  hdecode :: "string \<Rightarrow> goerr + Config"
  hopen :: "goerr + string"
  hdial :: "string \<Rightarrow> string \<Rightarrow> goerr + conn"
  hquote :: "string \<Rightarrow> string"
  hostname :: string
  hnow :: int
  hprocess :: string
  hfmt3 :: "int \<Rightarrow> string"

text \<open>\<open>Query().Get\<close>, \<open>strconv.ParseBool\<close>, \<open>strings.Contains\<close>.\<close>

definition query_get :: "httpreq \<Rightarrow> string \<Rightarrow> string" where
  "query_get rq k = (case rquery rq k of Some (v # vs) \<Rightarrow> v | _ \<Rightarrow> [])"

definition ParseBool :: "string \<Rightarrow> goerr + bool" where
  "ParseBool v =
     (if v \<in> {''1'', ''t'', ''T'', ''true'', ''TRUE'', ''True''} then Inr True
      else if v \<in> {''0'', ''f'', ''F'', ''false'', ''FALSE'', ''False''} then Inr False
      else Inl (Errorq ''strconv.ParseBool: parsing '' v))"

fun contains_text :: "string \<Rightarrow> string \<Rightarrow> bool" where
  "contains_text [] p = (p = [])"
| "contains_text (c # s) p = (hasPrefix (c # s) p \<or> contains_text s p)"

section \<open>Upstream modules\<close>

text \<open>
  The handler in its three parts: up to the assignment of the parsed flag, the test of \<open>err\<close>, the
  lookup. The variable \<open>err\<close> is the one of \<open>runHTTPServer\<close>, shared by all requests.
\<close>

datatype umpc = UStart | UTest string bool | ULookup string bool | UReply httpresp

definition um_parse :: "httpreq \<Rightarrow> goerr option \<Rightarrow> goerr option \<times> umpc" where
  "um_parse rq err =
     (if rmethod rq \<noteq> ''GET'' then (err, UReply (reply 405 NoBody))
      else let name = query_get rq ''name'' in
        if name = [] then (err, UReply (reply 400 (MessageBody ''missing upstream name'')))
        else case rquery rq ''force_discover'' of
               Some (v # vs) \<Rightarrow>
                 (case ParseBool v of Inl e \<Rightarrow> (Some e, UTest name False) | Inr b \<Rightarrow> (None, UTest name b))
             | _ \<Rightarrow> (err, ULookup name False))"

definition um_test :: "string \<Rightarrow> bool \<Rightarrow> goerr option \<Rightarrow> umpc" where
  "um_test name force err =
     (if err \<noteq> None then UReply (reply 400 (MessageBody ''invalid force_discover value'')) else ULookup name force)"

definition um_lookup :: "httpenv \<Rightarrow> Server \<Rightarrow> string \<Rightarrow> bool \<Rightarrow> umpc option" where
  "um_lookup env s name force =
     (case ListUpstreamModules (hdial env) s name force of
        None \<Rightarrow> None
      | Some (Inl e) \<Rightarrow>
          Some (UReply (reply (if contains_text (err_text (hquote env) e) ''unknown upstream'' then 404 else 500)
                  (MessageBody (err_text (hquote env) e))))
      | Some (Inr ms) \<Rightarrow> Some (UReply (reply 200 (ModulesBody ms))))"

definition um_step :: "httpenv \<Rightarrow> Server \<Rightarrow> httpreq \<Rightarrow> goerr option \<Rightarrow> umpc \<Rightarrow> (goerr option \<times> umpc) option" where
  "um_step env s rq err p =
     (case p of
        UStart \<Rightarrow> Some (um_parse rq err)
      | UTest name force \<Rightarrow> Some (err, um_test name force err)
      | ULookup name force \<Rightarrow> map_option (\<lambda>q. (err, q)) (um_lookup env s name force)
      | UReply r \<Rightarrow> Some (err, p))"

text \<open>Alone, the handler runs its parts one after the other.\<close>

definition upstream_modules_handler :: "httpenv \<Rightarrow> Server \<Rightarrow> httpreq \<Rightarrow> goerr option \<Rightarrow> (goerr option \<times> httpresp) option" where
  "upstream_modules_handler env s rq err0 =
     (case um_parse rq err0 of
        (err, UReply r) \<Rightarrow> Some (err, r)
      | (err, p) \<Rightarrow>
          (case (case p of UTest name force \<Rightarrow> um_test name force err | _ \<Rightarrow> p) of
             UReply r \<Rightarrow> Some (err, r)
           | ULookup name force \<Rightarrow> (case um_lookup env s name force of Some (UReply r) \<Rightarrow> Some (err, r) | _ \<Rightarrow> None)
           | _ \<Rightarrow> None))"

section \<open>Reload\<close>

definition reload_handler :: "httpenv \<Rightarrow> Server \<Rightarrow> httpreq \<Rightarrow> (httpresp \<times> Server) option" where
  "reload_handler env s rq =
     (if rmethod rq \<noteq> ''POST'' then Some (reply 405 NoBody, s)
      else case ReadConfigFromFile (hload env) (hdecode env) (hopen env) True s of
             None \<Rightarrow> None
           | Some (Some e, s1) \<Rightarrow>
               (let m = ''[ERROR] Load config: '' @ err_text (hquote env) e
                in Some (reply 500 (MessageBody ''Failed to reload config''), logError m (logStd m s1)))
           | Some (None, s1) \<Rightarrow> Some (reply 200 (MessageBody ''Successfully reloaded''), s1))"

section \<open>Status, telegraf, metrics\<close>

definition status_handler :: "Server \<Rightarrow> httpreq \<Rightarrow> httpresp" where
  "status_handler s rq =
     (if rmethod rq \<noteq> ''GET'' then reply 405 NoBody
      else let cs = ListConnectionInfo s in reply 200 (StatusBody (length cs) (map snapshot cs)))"

definition telegraf_handler :: "httpenv \<Rightarrow> Server \<Rightarrow> httpreq \<Rightarrow> httpresp" where
  "telegraf_handler env s rq =
     (if rmethod rq \<noteq> ''GET'' then reply 405 NoBody
      else let timestamp = hnow env div 1000000000 * 1000000000
           in reply 200 (TextBody (''rsync-proxy,host='' @ hostname env @ '' count='' @ show_int (GetActiveConnectionCount s) @ '' '' @
                show_int timestamp @ [LF])))"

definition metrics_handler :: "httpenv \<Rightarrow> Server \<Rightarrow> httpreq \<Rightarrow> httpresp \<times> Server" where
  "metrics_handler env s rq =
     (if rmethod rq \<noteq> ''GET'' then (reply 405 NoBody, s)
      else let (t, s1) = writePrometheusMetrics (hfmt3 env) (hnow env) s in (reply 200 (TextBody (hprocess env @ t)), s1))"

text \<open>The routes; the first component of the state is the shared \<open>err\<close>.\<close>

definition serve :: "httpenv \<Rightarrow> httpreq \<Rightarrow> goerr option \<times> Server \<Rightarrow> (httpresp \<times> goerr option \<times> Server) option" where
  "serve env rq es =
     (case es of (err, s) \<Rightarrow>
        if rpath rq = ''/upstream-modules'' then map_option (\<lambda>(e, r). (r, e, s)) (upstream_modules_handler env s rq err)
        else if rpath rq = ''/reload'' then map_option (\<lambda>(r, s1). (r, err, s1)) (reload_handler env s rq)
        else if rpath rq = ''/status'' then Some (status_handler s rq, err, s)
        else if rpath rq = ''/telegraf'' then Some (telegraf_handler env s rq, err, s)
        else if rpath rq = ''/metrics'' then (case metrics_handler env s rq of (r, s1) \<Rightarrow> Some (r, err, s1))
        else Some (reply 404 NoBody, err, s))"

end
