(* ===== verification/Lifecycle.thy ===== *)
theory Lifecycle
  imports Server
begin

text \<open>
  Starting and stopping: \<open>Listen\<close>, \<open>Close\<close>, \<open>runRsyncServer\<close> and \<open>Run\<close> of \<open>pkg/server/server.go\<close>,
  and \<open>listenTCPOrUnix\<close> of \<open>pkg/server/utils.go\<close>. The operating system is a parameter: what
  \<open>net.Listen\<close> and \<open>os.Chmod\<close> answer, and what \<open>Accept\<close> returns.
\<close>

record listenenv =
  NetListen :: "string \<Rightarrow> string \<Rightarrow> goerr + string"   \<comment> \<open>network, address; the address it got\<close>
  Chmod :: "string \<Rightarrow> goerr option"

definition close_listener :: "listener \<Rightarrow> listener" where
  "close_listener l = l\<lparr>lclosed := True\<rparr>"

text \<open>
  \<open>listenTCPOrUnix\<close>: a listener, an error, or both. The file that \<open>os.Remove\<close> takes away before a
  Unix socket is created, with its result ignored, is part of what \<open>NetListen\<close> answers.
\<close>

definition net_listen :: "listenenv \<Rightarrow> string \<Rightarrow> string \<Rightarrow> listener option \<times> goerr option" where
  "net_listen env network addr =
     (case NetListen env network addr of Inl e \<Rightarrow> (None, Some e) | Inr a \<Rightarrow> (Some \<lparr>laddr = a, lclosed = False\<rparr>, None))"

definition listenTCPOrUnix :: "listenenv \<Rightarrow> string \<Rightarrow> listener option \<times> goerr option" where
  "listenTCPOrUnix env addr =
     (if hasPrefix addr ''/'' then
        (case net_listen env ''unix'' addr of
           (l, Some e) \<Rightarrow> (l, Some e)
         | (l, None) \<Rightarrow> (l, Chmod env addr))
      else net_listen env ''tcp'' addr)"

text \<open>
  \<open>Listen\<close>. Besides the error and the server the result has every listener that was created, in the
  state it was left in.
\<close>

definition made :: "listener option \<Rightarrow> listener list" where
  "made l = (case l of None \<Rightarrow> [] | Some x \<Rightarrow> [x])"

definition listen_tls :: "listenenv \<Rightarrow> Server \<Rightarrow> (goerr \<times> listener list) + (listener option \<times> Server)" where
  "listen_tls env s =
     (if TLSListenAddr s = [] then Inr (None, s)
      else case listenTCPOrUnix env (TLSListenAddr s) of
             (l, Some e) \<Rightarrow> Inl (Wrapf ''create tls listener'' e, made l)
           | (None, None) \<Rightarrow> Inr (None, s)   \<comment> \<open>not reached: no listener and no error\<close>
           | (Some l, None) \<Rightarrow>
               Inr (Some l, logStd (''[INFO] Rsync TLS proxy listening on '' @ laddr l) (s\<lparr>TLSListenAddr := laddr l\<rparr>)))"

definition Listen_server :: "listenenv \<Rightarrow> Server \<Rightarrow> goerr option \<times> Server \<times> listener list" where
  "Listen_server env s =
     (case listenTCPOrUnix env (ListenAddr s) of
        (l, Some e) \<Rightarrow> (Some (Wrapf ''create tcp listener'' e), s, made l)
      | (None, None) \<Rightarrow> (None, s, [])   \<comment> \<open>not reached\<close>
      | (Some l1, None) \<Rightarrow>
          (let s1 = logStd (''[INFO] Rsync proxy listening on '' @ laddr l1) (s\<lparr>ListenAddr := laddr l1\<rparr>) in
           case listen_tls env s1 of
             Inl (e, ls) \<Rightarrow> (Some e, s1, close_listener l1 # ls)
           | Inr (lt, s2) \<Rightarrow>
               (case listenTCPOrUnix env (HTTPListenAddr s2) of
                  (l, Some e) \<Rightarrow> (Some (Wrapf ''create http listener'' e), s2, close_listener l1 # map close_listener (made lt) @ made l)
                | (None, None) \<Rightarrow> (None, s2, [])   \<comment> \<open>not reached\<close>
                | (Some l2, None) \<Rightarrow>
                    (let s3 = logStd (''[INFO] HTTP server listening on '' @ laddr l2) (s2\<lparr>HTTPListenAddr := laddr l2\<rparr>)
                     in (None, s3\<lparr>TCPListener := Some l1, TLSListener := lt, HTTPListener := Some l2\<rparr>, l1 # made lt @ [l2])))))"

definition Close_server :: "Server \<Rightarrow> Server" where
  "Close_server s = s\<lparr>TCPListener := map_option close_listener (TCPListener s), TLSListener := map_option close_listener (TLSListener s),
     HTTPListener := map_option close_listener (HTTPListener s)\<rparr>"

text \<open>
  \<open>runRsyncServer\<close> on what \<open>Accept\<close> returns, one after the other: the connections it hands to
  \<open>handleConn\<close>, and its result if it has returned.
\<close>

fun runRsyncServer :: "string \<Rightarrow> (goerr + 'c) list \<Rightarrow> 'c list \<times> goerr option option" where
  "runRsyncServer acceptErr [] = ([], None)"
| "runRsyncServer acceptErr (Inl e # rest) = ([], Some (if is_ErrClosed e then None else Some (Wrapf acceptErr e)))"
| "runRsyncServer acceptErr (Inr c # rest) = (let (cs, r) = runRsyncServer acceptErr rest in (c # cs, r))"

text \<open>What \<open>http.Serve\<close> returned, as \<open>Run\<close>'s first goroutine sends it.\<close>

definition http_result :: "goerr option \<Rightarrow> goerr option" where
  "http_result r = (case r of None \<Rightarrow> None | Some e \<Rightarrow> if is_ErrClosed e then None else Some (Wrapf ''start http server'' e))"

text \<open>
  \<open>Run\<close>: the goroutines that have returned, in the order in which they did; each sends its error,
  if it has one, and \<open>Run\<close> returns the first. \<open>None\<close>: it still runs.
\<close>

datatype loop_end = HTTPEnd "goerr option" | RsyncEnd "goerr option"

definition sends :: "loop_end \<Rightarrow> goerr option" where
  "sends x = (case x of HTTPEnd r \<Rightarrow> http_result r | RsyncEnd r \<Rightarrow> r)"

fun Run_server :: "loop_end list \<Rightarrow> goerr option" where
  "Run_server [] = None"
| "Run_server (x # xs) = (case sends x of Some e \<Rightarrow> Some e | None \<Rightarrow> Run_server xs)"

end
