(* ===== verification/Cmd.thy ===== *)
theory Cmd
  imports Http Lifecycle "HOL-Library.Signed_Division"
begin

text \<open>
  \<open>cmd/cmd.go\<close>: the commands that talk to a running server over its HTTP socket, the discovery of an
  rsync URL, and the start of the server. Cobra, the HTTP transport, the JSON codec, the colours and
  the table writer are parameters; a command is a function to its error and what it wrote.
\<close>

datatype colour = LargeNumber | Gigabytes | Megabytes | Muted

record clientenv =
  transport :: "string \<Rightarrow> string \<Rightarrow> httpreq \<Rightarrow> goerr + httpresp"   \<comment> \<open>network, address, request\<close>
  jsonText :: "httpbody \<Rightarrow> string"
  jsonModules :: "httpbody \<Rightarrow> goerr + string list"
  jsonStatus :: "httpbody \<Rightarrow> goerr + nat \<times> connInfoSnapshot list"
  paint :: "colour \<Rightarrow> string \<Rightarrow> string"
  dateTime :: "int \<Rightarrow> string"
  renderTable :: "string list \<Rightarrow> string list list \<Rightarrow> goerr option \<times> string"
  parseURL :: "string \<Rightarrow> goerr + string \<times> string"            \<comment> \<open>host and path\<close>

record cmdresult =
  cerr :: "goerr option"
  cout :: string
  cerrout :: string

definition result :: "goerr option \<Rightarrow> string \<Rightarrow> string \<Rightarrow> cmdresult" where
  "result e o1 o2 = \<lparr>cerr = e, cout = o1, cerrout = o2\<rparr>"

section \<open>Requests\<close>

definition makeHttpClient :: "clientenv \<Rightarrow> string \<Rightarrow> httpreq \<Rightarrow> goerr + httpresp" where
  "makeHttpClient env addr = transport env (if hasPrefix addr ''/'' then ''unix'' else ''tcp'') addr"

definition httpGet :: "clientenv \<Rightarrow> string \<Rightarrow> string \<Rightarrow> (string \<rightharpoonup> string list) \<Rightarrow> goerr + httpresp" where
  "httpGet env addr path q = makeHttpClient env addr \<lparr>rmethod = ''GET'', rpath = path, rquery = q\<rparr>"

definition httpPost :: "clientenv \<Rightarrow> string \<Rightarrow> string \<Rightarrow> goerr + httpresp" where
  "httpPost env addr path = makeHttpClient env addr \<lparr>rmethod = ''POST'', rpath = path, rquery = Map.empty\<rparr>"

definition SendReloadRequest :: "clientenv \<Rightarrow> string \<Rightarrow> cmdresult" where
  "SendReloadRequest env addr =
     (case httpPost env addr ''/reload'' of
        Inl e \<Rightarrow> result (Some e) [] []
      | Inr resp \<Rightarrow>
          if rstatus resp < 300 then result None (jsonText env (rbody resp)) []
          else result (Some (Errorf ''failed to reload'')) [] (jsonText env (rbody resp)))"

section \<open>Sizes\<close>

text \<open>\<open>%03d\<close> and \<open>%06d\<close>.\<close>

definition pad_nat :: "nat \<Rightarrow> nat \<Rightarrow> string" where
  "pad_nat w n = replicate (w - length (show_nat n)) (CHR ''0'') @ show_nat n"

definition pad_int :: "nat \<Rightarrow> int \<Rightarrow> string" where
  "pad_int w i = (if i < 0 then CHR ''-'' # pad_nat (w - 1) (nat (- i)) else pad_nat w (nat i))"

definition formatSizeColored :: "(colour \<Rightarrow> string \<Rightarrow> string) \<Rightarrow> int \<Rightarrow> string" where
  "formatSizeColored col sz =
     (let MB = 1000000; GB = 1000 * MB; TB = 1000 * GB in
      if sz = 0 then col Muted ''0''
      else
        let tb = sz sdiv TB; gb = (sz sdiv GB) smod 1000; mb = (sz sdiv MB) smod 1000; remainder = sz smod MB;
            padGB = tb > 0; padMB = padGB \<or> gb > 0; padRemainder = padMB \<or> mb > 0
        in (if tb > 0 then col LargeNumber (show_int tb) else []) @
           (if gb > 0 \<or> padGB then col Gigabytes (if padGB then pad_int 3 gb else show_int gb) else []) @
           (if mb > 0 \<or> padMB then col Megabytes (if padMB then pad_int 3 mb else show_int mb) else []) @
           (if remainder > 0 \<or> padRemainder then pad_int 6 remainder else []))"

section \<open>Connections\<close>

definition connection_row :: "clientenv \<Rightarrow> connInfoSnapshot \<Rightarrow> string list" where
  "connection_row env c = [show_nat (unat (snapIndex c)), snapRemote c, snapModule c, snapUpstream c, dateTime env (snapConnectedAt c),
     formatSizeColored (paint env) (snapReceived c), formatSizeColored (paint env) (snapSent c)]"

definition SendConnectionsRequest :: "clientenv \<Rightarrow> string \<Rightarrow> cmdresult" where
  "SendConnectionsRequest env addr =
     (case httpGet env addr ''/status'' Map.empty of
        Inl e \<Rightarrow> result (Some e) [] []
      | Inr resp \<Rightarrow>
          if rstatus resp \<noteq> 200 then result (Some (Errorf ''failed to get connections'')) [] (jsonText env (rbody resp))
          else case jsonStatus env (rbody resp) of
                 Inl e \<Rightarrow> result (Some (Wrapf ''failed to decode response'' e)) [] []
               | Inr (num, cs) \<Rightarrow>
                   if num = 0 then result None (''No active connections'' @ [LF]) []
                   else (case renderTable env [''Index'', ''Remote'', ''Module'', ''Upstream'', ''Connected'', ''Received'', ''Sent'']
                                (map (connection_row env) cs) of
                           (e, t) \<Rightarrow> result e t []))"

section \<open>Modules\<close>

definition print_lines :: "string list \<Rightarrow> string" where
  "print_lines ls = concat (map (\<lambda>l. l @ [LF]) ls)"

definition SendUpstreamModulesRequest :: "clientenv \<Rightarrow> string \<Rightarrow> string \<Rightarrow> bool \<Rightarrow> cmdresult" where
  "SendUpstreamModulesRequest env addr upstream forceDiscover =
     (let q = [''name'' \<mapsto> [upstream]]; q' = (if forceDiscover then q(''force_discover'' \<mapsto> [''true'']) else q) in
      case httpGet env addr ''/upstream-modules'' q' of
        Inl e \<Rightarrow> result (Some e) [] []
      | Inr resp \<Rightarrow>
          if rstatus resp \<noteq> 200 then result (Some (Errorf ''failed to get upstream modules'')) [] (jsonText env (rbody resp))
          else case jsonModules env (rbody resp) of
                 Inl e \<Rightarrow> result (Some (Wrapf ''failed to decode response'' e)) [] []
               | Inr ms \<Rightarrow> result None (print_lines (sort ms)) [])"

text \<open>\<open>RunE\<close> of \<open>newUpstreamModulesCmd\<close>; discovery may not return in the model's general form.\<close>

definition upstreamModulesCmd :: "clientenv \<Rightarrow> (string \<Rightarrow> string \<Rightarrow> goerr + conn) \<Rightarrow> Server \<Rightarrow> string \<Rightarrow> bool \<Rightarrow> bool \<Rightarrow> string \<Rightarrow> cmdresult option" where
  "upstreamModulesCmd env dial s daemonSocket useProxyProtocol forceDiscover arg =
     (if arg = [] then Some (result (Some (Errorf ''empty upstream spec'')) [] [])
      else if hasPrefix arg ''rsync://'' then
        (case parseURL env arg of
           Inl e \<Rightarrow> Some (result (Some (Wrapf ''parse rsync url'' e)) [] [])
         | Inr (host, path) \<Rightarrow>
             if host \<noteq> [] \<and> path \<noteq> [] \<and> path \<noteq> ''/''
             then Some (result (Some (Errorf ''invalid rsync url: path is not allowed'')) [] [])
             else (case DiscoverModulesWithProxyProtocol dial (ReadTimeout s) (WriteTimeout s) (if host = [] then path else host) useProxyProtocol of
                     None \<Rightarrow> None
                   | Some (Inl e) \<Rightarrow> Some (result (Some e) [] [])
                   | Some (Inr ms) \<Rightarrow> Some (result None (print_lines ms) [])))
      else Some (SendUpstreamModulesRequest env daemonSocket arg forceDiscover))"

section \<open>The server\<close>

text \<open>
  \<open>printVersion\<close>: what the build put into the binary and what the runtime says of itself, through
  the JSON encoder \<open>enc\<close>, which is told whether to indent.
\<close>

record Info =
  GitCommit :: string
  BuildDate :: string
  Version :: string
  GoVersion :: string
  Compiler :: string
  Platform :: string

record build =
  bCommit :: string
  bDate :: string
  bVersion :: string
  bGoVersion :: string
  bCompiler :: string
  bGOOS :: string
  bGOARCH :: string

definition printVersion :: "(bool \<Rightarrow> Info \<Rightarrow> goerr option \<times> string) \<Rightarrow> build \<Rightarrow> bool \<Rightarrow> cmdresult" where
  "printVersion enc b pretty =
     (case enc pretty \<lparr>GitCommit = bCommit b, BuildDate = bDate b, Version = bVersion b, GoVersion = bGoVersion b,
             Compiler = bCompiler b, Platform = bGOOS b @ ''/'' @ bGOARCH b\<rparr> of
        (e, t) \<Rightarrow> result e t [])"

text \<open>\<open>RunE\<close> of the commands without an argument.\<close>

definition connectionsCmd :: "clientenv \<Rightarrow> string \<Rightarrow> cmdresult" where
  "connectionsCmd env daemonSocket = SendConnectionsRequest env daemonSocket"

definition reloadCmd :: "clientenv \<Rightarrow> string \<Rightarrow> cmdresult" where
  "reloadCmd env daemonSocket = SendReloadRequest env daemonSocket"

definition versionCmd :: "(bool \<Rightarrow> Info \<Rightarrow> goerr option \<times> string) \<Rightarrow> build \<Rightarrow> bool \<Rightarrow> cmdresult" where
  "versionCmd enc b pretty = printVersion enc b pretty"

text \<open>
  \<open>New\<close>: the server with its timeouts, and \<open>RunE\<close> of the root command: print the version, or load,
  listen, run. The result is the error, and the server that ran if it got that far; \<open>ends\<close> says
  which of its loops have ended and how.
\<close>

definition minute :: int where "minute = 60 * 1000000000"

definition new_command_server :: Server where
  "new_command_server = NewServer\<lparr>WriteTimeout := minute, ReadTimeout := minute\<rparr>"

definition rootCmd :: "(bool \<Rightarrow> Info \<Rightarrow> goerr option \<times> string) \<Rightarrow> build \<Rightarrow> bool \<Rightarrow> loadenv \<Rightarrow> (string \<Rightarrow> goerr + Config) \<Rightarrow> goerr + string \<Rightarrow> listenenv \<Rightarrow> loop_end list \<Rightarrow>
    (goerr option \<times> Server option) option" where
  "rootCmd enc b version env dec opn lenv ends =
     (if version then Some (cerr (printVersion enc b False), None)
      else case ReadConfigFromFile env dec opn True new_command_server of
        None \<Rightarrow> None
      | Some (Some e, s) \<Rightarrow> Some (Some (Wrapf ''load config'' e), None)
      | Some (None, s) \<Rightarrow>
          (case Listen_server lenv s of
             (Some e, s1, ls) \<Rightarrow> Some (Some (Wrapf ''server listen'' e), None)
           | (None, s1, ls) \<Rightarrow> Some (Run_server ends, Some s1)))"

text \<open>\<open>main\<close>: the exit status.\<close>

definition main_exit :: "(string \<Rightarrow> string) \<Rightarrow> goerr option \<Rightarrow> nat \<times> string" where
  "main_exit qt e = (case e of None \<Rightarrow> (0, []) | Some x \<Rightarrow> (1, err_text qt x @ [LF]))"

end
