(* ===== verification/HttpProps.thy ===== *)
theory HttpProps
  imports Http ServerProps
begin

text \<open>Properties of the HTTP handlers.\<close>

section \<open>Reload\<close>

lemma core_stdlog [simp]: "core (s\<lparr>files := f\<rparr>) = core s"
  by (simp add: core_def)

lemma ReadConfigFromFile_cases:
  obtains r s' where "ReadConfigFromFile env dec opn openLog s = Some (r, s')" "r = None \<or> core s' = core s"
proof (cases opn)
  case (Inl e)
  then show thesis by (intro that [of "Some e" s]) (simp_all add: ReadConfigFromFile_def)
next
  case (Inr b)
  let ?s = "logStd ''[INFO] loading config'' s"
  show thesis
  proof (cases "dec b")
    case (Inl e)
    with Inr show thesis by (intro that [of "Some e" ?s]) (simp_all add: ReadConfigFromFile_def ReadConfig_def)
  next
    case d: (Inr c)
    obtain r s' where l: "loadConfig env c openLog ?s = Some (r, s')" using loadConfig_Some [of env c openLog ?s] by auto
    have "r = None \<or> core s' = core s" using l by (cases rule: loadConfig_cases) simp_all
    with l d Inr show thesis by (intro that [of r s']) (simp_all add: ReadConfigFromFile_def ReadConfig_def)
  qed
qed

text \<open>
  A reload over HTTP always gets an answer, and the answer is true: 200 exactly when the
  configuration was loaded, and with 500 the server goes on with everything it had.
\<close>

theorem reload_answer_is_true:
  assumes "rmethod rq = ''POST''"
  shows "\<exists>r s' x s1. reload_handler env s rq = Some (r, s') \<and>
    ReadConfigFromFile (hload env) (hdecode env) (hopen env) True s = Some (x, s1) \<and>
    (if x = None then r = reply 200 (MessageBody ''Successfully reloaded'') \<and> s' = s1
     else r = reply 500 (MessageBody ''Failed to reload config'') \<and> core s' = core s)"
proof -
  obtain x s1 where x: "ReadConfigFromFile (hload env) (hdecode env) (hopen env) True s = Some (x, s1)" "x = None \<or> core s1 = core s"
    by (rule ReadConfigFromFile_cases [of "hload env" "hdecode env" "hopen env" True s])
  then show ?thesis using assms by (cases x) (simp_all add: reload_handler_def Let_def)
qed

definition demo_http :: httpenv where
  "demo_http = \<lparr>hload = demo_env, hdecode = (\<lambda>b. if b = ''new'' then Inr demo_conf' else Inl (IOError ''bad toml'')), hopen = Inr ''broken'',
     hdial = (\<lambda>n a. Inl (IOError ''connection refused'')), hquote = (\<lambda>s. s), hostname = ''mirror'', hnow = 0, hprocess = [], hfmt3 = (\<lambda>d. ''0.000'')\<rparr>"

definition demo_req :: "string \<Rightarrow> string \<Rightarrow> (string \<rightharpoonup> string list) \<Rightarrow> httpreq" where
  "demo_req m p q = \<lparr>rmethod = m, rpath = p, rquery = q\<rparr>"

lemma demo_req_simps [simp]: "rmethod (demo_req m p q) = m" "rpath (demo_req m p q) = p" "rquery (demo_req m p q) = q"
  by (simp_all add: demo_req_def)

theorem reload_answer_is_true_witness:
  "\<exists>s'. reload_handler demo_http demo_server (demo_req ''POST'' ''/reload'' Map.empty) =
     Some (reply 500 (MessageBody ''Failed to reload config''), s') \<and> core s' = core demo_server"
proof -
  have f: "ReadConfigFromFile (hload demo_http) (hdecode demo_http) (hopen demo_http) True demo_server =
      Some (Some (IOError ''bad toml''), logStd ''[INFO] loading config'' demo_server)"
    by (simp add: demo_http_def ReadConfigFromFile_def ReadConfig_def)
  show ?thesis
    using reload_answer_is_true [of "demo_req ''POST'' ''/reload'' Map.empty" demo_http demo_server] f by auto
qed

section \<open>The modules of an upstream\<close>

lemma contains_prefix: "contains_text (p @ s) p"
  by (cases p; cases s) (auto simp: hasPrefix_def)

text \<open>
  The question for the modules of an upstream, one request at a time: a wrong method, a missing
  name and a malformed flag are refused, an upstream that is not configured is 404, any other gets
  its configured modules in order.
\<close>

theorem upstream_modules_answered:
  assumes "case rquery rq ''force_discover'' of Some (v # vs) \<Rightarrow> ParseBool v \<noteq> Inr True | _ \<Rightarrow> True"
  shows "\<exists>err'. upstream_modules_handler env s rq err = Some (err',
    if rmethod rq \<noteq> ''GET'' then reply 405 NoBody
    else if query_get rq ''name'' = [] then reply 400 (MessageBody ''missing upstream name'')
    else if (case rquery rq ''force_discover'' of Some (v # vs) \<Rightarrow> ParseBool v \<noteq> Inr False | _ \<Rightarrow> False)
    then reply 400 (MessageBody ''invalid force_discover value'')
    else case find_upstream (query_get rq ''name'') (supstreams s) of
           None \<Rightarrow> reply 404 (MessageBody (''unknown upstream: '' @ query_get rq ''name''))
         | Some u \<Rightarrow> reply 200 (ModulesBody (sort (Modules u))))"
proof -
  have c: "contains_text (''unknown upstream: '' @ n) ''unknown upstream''" for n
    using contains_prefix [of "''unknown upstream''" "'': '' @ n"] by simp
  have l: "um_lookup env s n False = Some (UReply (case find_upstream n (supstreams s) of
           None \<Rightarrow> reply 404 (MessageBody (''unknown upstream: '' @ n)) | Some u \<Rightarrow> reply 200 (ModulesBody (sort (Modules u)))))" for n
    using c [of n] by (simp add: um_lookup_def ListUpstreamModules_def split: option.split)
  show ?thesis
    using assms
    by (auto simp: upstream_modules_handler_def um_parse_def um_test_def l Let_def simp del: append_Cons
        split: option.splits list.splits sum.splits)
qed

theorem upstream_modules_answered_witness:
  "\<exists>err. upstream_modules_handler demo_http demo_server (demo_req ''GET'' [] [''name'' \<mapsto> [''u2'']]) None =
     Some (err, reply 200 (ModulesBody [''bar'', ''foo'']))"
proof -
  let ?q = "demo_req ''GET'' [] [''name'' \<mapsto> [''u2'']]"
  have "\<not> Option.is_none (find_upstream ''u2'' (supstreams demo_server))" "map_option Modules (find_upstream ''u2'' (supstreams demo_server)) = Some [''bar'', ''foo'']"
    "sort [''bar'', ''foo''] = [''bar'', ''foo'']"
    by code_simp+
  then show ?thesis
    using upstream_modules_answered [of ?q demo_http demo_server None] by (auto simp: query_get_def)
qed

section \<open>Two requests at once\<close>

text \<open>Several handlers run at the same time; \<open>is\<close> says whose part is next.\<close>

fun um_run :: "httpenv \<Rightarrow> Server \<Rightarrow> httpreq list \<Rightarrow> nat list \<Rightarrow> goerr option \<times> umpc list \<Rightarrow> (goerr option \<times> umpc list) option" where
  "um_run env s rqs [] x = Some x"
| "um_run env s rqs (i # is) (err, ps) =
     (case um_step env s (rqs ! i) err (ps ! i) of
        None \<Rightarrow> None | Some (err1, p) \<Rightarrow> um_run env s rqs is (err1, ps[i := p]))"

lemma um_parse_flag:
  assumes "rmethod rq = ''GET''" "query_get rq ''name'' = n" "n \<noteq> []" "rquery rq ''force_discover'' = Some [v]"
  shows "um_parse rq err = (case ParseBool v of Inl e \<Rightarrow> (Some e, UTest n False) | Inr b \<Rightarrow> (None, UTest n b))"
  using assms by (simp add: um_parse_def Let_def)

text \<open>
  C36. Requests disturb each other through the shared \<open>err\<close>. If one request with a malformed flag and
  one with a good flag come together, the malformed one can get through, taken for false; and the
  good one can be refused for the other's mistake.
\<close>

theorem concurrent_flags_confused:
  assumes "rmethod a = ''GET''" and "rmethod b = ''GET''" and "query_get a ''name'' = n" and "query_get b ''name'' = m"
    and "n \<noteq> []" and "m \<noteq> []" and "rquery a ''force_discover'' = Some [v]" and "rquery b ''force_discover'' = Some [w]"
    and "ParseBool v = Inl e" and "ParseBool w = Inr f"
  shows "um_run env s [a, b] [0, 1, 0] (err, [UStart, UStart]) = Some (None, [ULookup n False, UTest m f]) \<and>
    um_run env s [a, b] [1, 0, 1] (err, [UStart, UStart]) =
      Some (Some e, [UTest n False, UReply (reply 400 (MessageBody ''invalid force_discover value''))])"
  using um_parse_flag [OF assms(1,3,5,7)] um_parse_flag [OF assms(2,4,6,8)] assms(9,10)
  by (simp add: um_step_def um_test_def)

theorem concurrent_flags_confused_witness:
  "um_run demo_http demo_server
     [demo_req ''GET'' [] [''name'' \<mapsto> [''u1''], ''force_discover'' \<mapsto> [''maybe'']], demo_req ''GET'' [] [''name'' \<mapsto> [''u2''], ''force_discover'' \<mapsto> [''true'']]]
     [0, 1, 0] (None, [UStart, UStart]) = Some (None, [ULookup ''u1'' False, UTest ''u2'' True])"
proof -
  have "ParseBool ''maybe'' = Inl (Errorq ''strconv.ParseBool: parsing '' ''maybe'')" "ParseBool ''true'' = Inr True" by code_simp+
  from concurrent_flags_confused [OF _ _ _ _ _ _ _ _ this, of "demo_req ''GET'' [] [''name'' \<mapsto> [''u1''], ''force_discover'' \<mapsto> [''maybe'']]"
      "demo_req ''GET'' [] [''name'' \<mapsto> [''u2''], ''force_discover'' \<mapsto> [''true'']]" "''u1''" "''u2''"]
  show ?thesis by (simp add: query_get_def)
qed

section \<open>Looking changes nothing\<close>

lemma upstream_samples_val:
  "upstream_samples name get us m = (t, m') \<Longrightarrow> per_upstream.val m' = per_upstream.val m"
proof (induction us arbitrary: m t m')
  case (Cons u us)
  obtain c m1 where c: "getUpstreamCounters (Name u) m = (c, m1)" by (metis surj_pair)
  obtain t2 m2 where t2: "upstream_samples name get us m1 = (t2, m2)" by (metis surj_pair)
  have "per_upstream.val m1 = per_upstream.val m" using per_upstream.val_get [of "Name u" m] c by (simp add: fun_eq_iff)
  with Cons.IH [OF t2] Cons.prems c t2 show ?case by simp
qed simp

lemma metrics_state:
  assumes "writePrometheusMetrics fmt3 now s = (t, s')"
  shows "\<exists>m. s' = s\<lparr>supstreamCounters := m\<rparr> \<and> per_upstream.val m = per_upstream.val (supstreamCounters s)"
proof -
  let ?us = "sort_key Name (supstreams s)"
  obtain t1 m1 where 1: "upstream_samples ''rsync_proxy_queue_full_rejected_total'' queueFull ?us (supstreamCounters s) = (t1, m1)" by (metis surj_pair)
  obtain t2 m2 where 2: "upstream_samples ''rsync_proxy_upstream_dial_errors_total'' dialError ?us m1 = (t2, m2)" by (metis surj_pair)
  have "s' = s\<lparr>supstreamCounters := m2\<rparr>"
    using assms 1 2 by (auto simp: writePrometheusMetrics_def upstream_metrics_def Let_def)
  then show ?thesis using upstream_samples_val [OF 1] upstream_samples_val [OF 2] by auto
qed

text \<open>
  C29. Only a reload changes the server: any other request leaves modules, upstreams, queues,
  connections and totals as they were, and no counter of an upstream reads differently afterwards
  (a scrape may have created it).
\<close>

theorem only_reload_changes:
  assumes "serve env rq (err, s) = Some (r, err', s')" and "rpath rq \<noteq> ''/reload'' \<or> rmethod rq \<noteq> ''POST''"
  shows "\<exists>m. s' = s\<lparr>supstreamCounters := m\<rparr> \<and> per_upstream.val m = per_upstream.val (supstreamCounters s)"
proof -
  have same: "\<exists>m. s = s\<lparr>supstreamCounters := m\<rparr> \<and> per_upstream.val m = per_upstream.val (supstreamCounters s)"
    by (rule exI [of _ "supstreamCounters s"]) simp
  show ?thesis
  proof (cases "rpath rq = ''/metrics'' \<and> rmethod rq = ''GET''")
    case True
    obtain t s1 where t: "writePrometheusMetrics (hfmt3 env) (hnow env) s = (t, s1)" by (metis surj_pair)
    then have "s' = s1" using assms(1) True by (auto simp: serve_def metrics_handler_def)
    with metrics_state [OF t] show ?thesis by simp
  next
    case False
    then have "s' = s"
      using assms by (auto simp: serve_def metrics_handler_def reload_handler_def split: if_splits)
    with same show ?thesis by simp
  qed
qed

theorem only_reload_changes_witness:
  "\<exists>m. snd (snd (the (serve demo_http (demo_req ''GET'' ''/metrics'' Map.empty) (None, demo_server)))) = demo_server\<lparr>supstreamCounters := m\<rparr>"
proof -
  obtain t s1 where t: "writePrometheusMetrics (hfmt3 demo_http) (hnow demo_http) demo_server = (t, s1)" by (metis surj_pair)
  have "serve demo_http (demo_req ''GET'' ''/metrics'' Map.empty) (None, demo_server) = Some (reply 200 (TextBody t), None, s1)"
    using t by (simp add: serve_def metrics_handler_def demo_http_def)
  from only_reload_changes [OF this] this show ?thesis by auto
qed

end
