(* ===== verification/LifecycleProps.thy ===== *)
theory LifecycleProps
  imports Lifecycle ServerProps
begin



definition listeners :: "Server \<Rightarrow> listener option list" where
  "listeners s = [TCPListener s, TLSListener s, HTTPListener s]"

lemma listeners_frame [simp]:
  "listeners (logStd m s) = listeners s" "listeners (s\<lparr>ListenAddr := a\<rparr>) = listeners s" "listeners (s\<lparr>TLSListenAddr := a\<rparr>) = listeners s"
  "listeners (s\<lparr>HTTPListenAddr := a\<rparr>) = listeners s"
  by (simp_all add: listeners_def logStd_def)







text \<open>
  When the mode of a Unix socket cannot be set, \<open>Listen\<close> fails and leaves that socket open:
  \<open>listenTCPOrUnix\<close> returns the listener together with the error, and nobody closes it.
\<close>

theorem chmod_failure_leaks_socket:
  assumes "hasPrefix (ListenAddr s) ''/''" and "NetListen env ''unix'' (ListenAddr s) = Inr a" and "Chmod env (ListenAddr s) = Some e"
  shows "Listen_server env s = (Some (Wrapf ''create tcp listener'' e), s, [\<lparr>laddr = a, lclosed = False\<rparr>])"
  using assms by (simp add: Listen_server_def listenTCPOrUnix_def net_listen_def made_def)

theorem chmod_failure_leaks_socket_witness:
  "Listen_server \<lparr>NetListen = (\<lambda>n a. Inr a), Chmod = (\<lambda>a. Some (IOError ''not permitted''))\<rparr> (NewServer\<lparr>ListenAddr := ''/run/s''\<rparr>) =
     (Some (Wrapf ''create tcp listener'' (IOError ''not permitted'')), NewServer\<lparr>ListenAddr := ''/run/s''\<rparr>, [\<lparr>laddr = ''/run/s'', lclosed = False\<rparr>])"
  by (rule chmod_failure_leaks_socket) (simp_all add: hasPrefix_def)

section \<open>Running\<close>

text \<open>
  An accept loop hands every connection to \<open>handleConn\<close>, in the order of their arrival, up to the
  first error of \<open>Accept\<close>; there it ends, without an error if its listener was closed and with this
  error otherwise. \<open>Run\<close> returns the first error that one of its loops ends with, and goes on as long
  as there is none: when all listeners are closed it waits for ever.
\<close>

theorem loops_end_at_first_error:
  "runRsyncServer m xs = (map projr (takeWhile (\<lambda>x. \<not> isl x) xs),
     case dropWhile (\<lambda>x. \<not> isl x) xs of [] \<Rightarrow> None
     | x # _ \<Rightarrow> Some (if is_ErrClosed (projl x) then None else Some (Wrapf m (projl x)))) \<and>
   Run_server ends = (case dropWhile (\<lambda>x. sends x = None) ends of [] \<Rightarrow> None | x # _ \<Rightarrow> sends x)"
proof
  show "runRsyncServer m xs = (map projr (takeWhile (\<lambda>x. \<not> isl x) xs),
     case dropWhile (\<lambda>x. \<not> isl x) xs of [] \<Rightarrow> None
     | x # _ \<Rightarrow> Some (if is_ErrClosed (projl x) then None else Some (Wrapf m (projl x))))"
    by (induction m xs rule: runRsyncServer.induct) auto
  show "Run_server ends = (case dropWhile (\<lambda>x. sends x = None) ends of [] \<Rightarrow> None | x # _ \<Rightarrow> sends x)"
    by (induction ends) (auto split: option.split)
qed

end
