(* ===== verification/CmdProps.thy ===== *)
theory CmdProps
  imports Cmd HttpProps LifecycleProps
begin

text \<open>Properties of the commands, together with the handlers they talk to.\<close>

section \<open>Sizes\<close>

definition no_colour :: "colour \<Rightarrow> string \<Rightarrow> string" where
  "no_colour c s = s"

lemma char_48: "char_of (48::nat) = CHR ''0''"
  by code_simp

lemma digit_char: "is_digit c \<Longrightarrow> c = char_of (48 + digit_val c) \<and> digit_val c < 10"
  by (auto simp: is_digit_def digit_val_def)

lemma length_show_nat: "n < 10 ^ k \<Longrightarrow> 0 < k \<Longrightarrow> length (show_nat n) \<le> k"
proof (induction k arbitrary: n)
  case (Suc k)
  show ?case
  proof (cases "n < 10")
    case True
    then show ?thesis by (simp add: show_nat_small)
  next
    case False
    have "n div 10 < 10 ^ k" using Suc.prems(1) by (simp add: less_mult_imp_div_less mult.commute)
    moreover from this False have "0 < k" by (cases k) auto
    ultimately show ?thesis using Suc.IH False by (simp add: show_nat_step)
  qed
qed simp

lemma read_zeros: "read_nat (replicate k (CHR ''0'') @ s) = read_nat s"
  by (induction k) (simp_all add: read_nat_def digit_val_def)

lemma pad_nat_facts:
  assumes "n < 10 ^ w" "0 < w"
  shows "length (pad_nat w n) = w" "read_nat (pad_nat w n) = n" "c \<in> set (pad_nat w n) \<Longrightarrow> is_digit c"
  using length_show_nat [OF assms]
  by (auto simp: pad_nat_def read_zeros is_digit_def dest: show_nat_digits [unfolded is_digit_def])

text \<open>A text of digits that does not start with 0 is how its number is printed.\<close>

lemma show_read_nat:
  assumes "\<forall>c \<in> set s. is_digit c" "s \<noteq> []" "hd s \<noteq> CHR ''0''"
  shows "show_nat (read_nat s) = s"
  using assms
proof (induction s rule: rev_induct)
  case (snoc c s)
  have c: "c = char_of (48 + digit_val c)" "digit_val c < 10" using digit_char snoc.prems(1) by auto
  show ?case
  proof (cases "s = []")
    case True
    then have "read_nat (s @ [c]) = digit_val c" by (simp add: read_nat_def)
    with True c show ?thesis by (simp add: show_nat_small)
  next
    case False
    then have s: "show_nat (read_nat s) = s" using snoc by simp
    have "read_nat s \<noteq> 0"
    proof
      assume "read_nat s = 0"
      with s have "s = [CHR ''0'']" by (simp add: show_nat_small char_48)
      with snoc.prems(3) show False by simp
    qed
    then have "\<not> 10 * read_nat s + digit_val c < 10" by simp
    then show ?thesis using c s by (simp add: show_nat_step)
  qed
qed simp

lemma hd_show_nat: "0 < n \<Longrightarrow> hd (show_nat n) \<noteq> CHR ''0''"
proof (induction n rule: show_nat.induct)
  case (1 n)
  show ?case
  proof (cases "n < 10")
    case True
    have "char_of (48 + n) \<noteq> CHR ''0''"
    proof
      assume "char_of (48 + n) = CHR ''0''"
      then have "digit_val (char_of (48 + n)) = digit_val (CHR ''0'')" by simp
      moreover have "digit_val (CHR ''0'') = 0" by (simp add: digit_val_def)
      ultimately show False using True 1(2) by simp
    qed
    with True show ?thesis by (simp add: show_nat_small)
  next
    case False
    then have "hd (show_nat (n div 10)) \<noteq> CHR ''0''" using 1(1) by simp
    with False show ?thesis by (simp add: show_nat_step)
  qed
qed

text \<open>A number printed in two parts.\<close>

lemma show_nat_parts:
  assumes "0 < a" "b < 10 ^ w" "0 < w"
  shows "show_nat a @ pad_nat w b = show_nat (a * 10 ^ w + b)"
proof -
  let ?s = "show_nat a @ pad_nat w b"
  have "read_nat ?s = a * 10 ^ w + b" using pad_nat_facts(1,2) [OF assms(2,3)] by (simp add: read_nat_append)
  moreover have "\<forall>c \<in> set ?s. is_digit c" using pad_nat_facts(3) [OF assms(2,3)] show_nat_digits by auto
  moreover have "hd ?s \<noteq> CHR ''0''" using hd_show_nat [OF assms(1)] by simp
  ultimately show ?thesis using show_read_nat [of ?s] by simp
qed

text \<open>The parts of a size: on sizes that are not negative, Go's division is that of the naturals.\<close>

lemma format_parts:
  assumes "0 < n"
  shows "formatSizeColored no_colour (int n) =
    (let t = n div 10 ^ 12; g = n div 10 ^ 9 mod 1000; m = n div 10 ^ 6 mod 1000; r = n mod 10 ^ 6 in
      (if 0 < t then show_nat t @ pad_nat 3 g @ pad_nat 3 m @ pad_nat 6 r
       else if 0 < g then show_nat g @ pad_nat 3 m @ pad_nat 6 r
       else if 0 < m then show_nat m @ pad_nat 6 r else pad_nat 6 r))"
proof -
  have d: "x sdiv k = x div k" "x smod k = x mod k" if "0 \<le> x" "0 < k" for x k :: int
    using that by (cases "x = 0"; simp add: signed_divide_int_def signed_modulo_int_def sgn_if minus_div_mult_eq_mod [symmetric])+
  have nn: "0 \<le> int n div k" if "0 < k" for k using that by (simp add: pos_imp_zdiv_nonneg_iff)
  have i: "int n div 1000000000000 = int (n div 10 ^ 12)" "int n div 1000000000 mod 1000 = int (n div 10 ^ 9 mod 1000)"
    "int n div 1000000 mod 1000 = int (n div 10 ^ 6 mod 1000)" "int n mod 1000000 = int (n mod 10 ^ 6)"
    by (simp_all add: zdiv_int zmod_int)
  have p: "pad_int w (int k) = pad_nat w k" "show_int (int k) = show_nat k" for w k by (simp_all add: pad_int_def show_int_def)
  have nz: "int n \<noteq> 0" using assms by simp
  show ?thesis
    unfolding formatSizeColored_def Let_def no_colour_def
    using assms
    by (simp add: d nn i p nz del: of_nat_div of_nat_mod)
qed

lemma size_split:
  "(n::nat) = ((n div 10 ^ 12 * 10 ^ 3 + n div 10 ^ 9 mod 1000) * 10 ^ 3 + n div 10 ^ 6 mod 1000) * 10 ^ 6 + n mod 10 ^ 6"
proof -
  have "n div 10 ^ 6 = n div 10 ^ 9 * 10 ^ 3 + n div 10 ^ 6 mod 1000" "n div 10 ^ 9 = n div 10 ^ 12 * 10 ^ 3 + n div 10 ^ 9 mod 1000"
    using div_mult_mod_eq [of "n div 10 ^ 6" "10 ^ 3"] div_mult_mod_eq [of "n div 10 ^ 9" "10 ^ 3"]
    by (simp_all add: div_mult2_eq [symmetric])
  then show ?thesis using div_mult_mod_eq [of n "10 ^ 6"] by simp
qed

text \<open>The parts that are printed, put together.\<close>

lemma size_joined:
  assumes "n = ((t * 10 ^ 3 + g) * 10 ^ 3 + m) * 10 ^ 6 + r" and small: "g < 10 ^ 3" "m < 10 ^ 3" "r < 10 ^ 6"
  shows "(if 0 < t then show_nat t @ pad_nat 3 g @ pad_nat 3 m @ pad_nat 6 r
       else if 0 < g then show_nat g @ pad_nat 3 m @ pad_nat 6 r
       else if 0 < m then show_nat m @ pad_nat 6 r else pad_nat 6 r) = (if n < 10 ^ 6 then pad_nat 6 n else show_nat n)"
proof -
  have parts: "0 < a \<Longrightarrow> b < 10 ^ w \<Longrightarrow> 0 < w \<Longrightarrow> show_nat a @ pad_nat w b @ x = show_nat (a * 10 ^ w + b) @ x" for a b w x
    using show_nat_parts [of a b w] by (metis append.assoc)
  consider "0 < t" | "t = 0" "0 < g" | "t = 0" "g = 0" "0 < m" | "t = 0" "g = 0" "m = 0" by linarith
  then show ?thesis
  proof cases
    case 1
    then have "0 < t * 10 ^ 3 + g" "0 < (t * 10 ^ 3 + g) * 10 ^ 3 + m" by simp_all
    then have "show_nat t @ pad_nat 3 g @ pad_nat 3 m @ pad_nat 6 r = show_nat n" unfolding assms(1)
      by (simp only: parts [OF 1 small(1)] parts [OF _ small(2)] show_nat_parts [OF _ small(3)] zero_less_numeral)
    with 1 assms(1) show ?thesis by simp
  next
    case 2
    have "0 < g * 10 ^ 3 + m" "n = (g * 10 ^ 3 + m) * 10 ^ 6 + r" using 2 assms(1) by simp_all
    then have "show_nat g @ pad_nat 3 m @ pad_nat 6 r = show_nat n"
      by (simp only: parts [OF 2(2) small(2)] show_nat_parts [OF _ small(3)] zero_less_numeral)
    with 2 assms(1) show ?thesis by simp
  next
    case 3
    have "show_nat m @ pad_nat 6 r = show_nat n" using 3 show_nat_parts [of m r 6] small assms(1) by simp
    with 3 assms(1) show ?thesis by simp
  qed (use assms in simp)
qed

text \<open>
  C35. The size of a transfer, with the colours off, is the number in decimal: the four parts fit
  together without a digit lost or doubled. Only below a million it is not: there the code pads the
  number with zeros to six digits, as if more significant parts stood before it.
\<close>

theorem size_is_decimal:
  "formatSizeColored no_colour (int n) = (if n = 0 then ''0'' else if n < 10 ^ 6 then pad_nat 6 n else show_nat n)"
proof (cases "n = 0")
  case True
  then show ?thesis by (simp add: formatSizeColored_def no_colour_def)
next
  case False
  have small: "n div 10 ^ 9 mod 1000 < 10 ^ 3" "n div 10 ^ 6 mod 1000 < 10 ^ 3" "n mod 10 ^ 6 < 10 ^ 6" by simp_all
  from False have "0 < n" by simp
  from trans [OF format_parts [OF this, unfolded Let_def] size_joined [OF size_split small]] False
  show ?thesis by (simp only: if_False)
qed

section \<open>Commands and handlers together\<close>

text \<open>A client whose requests are answered by the handlers; no answer is a broken connection.\<close>

definition wired :: "httpenv \<Rightarrow> goerr option \<times> Server \<Rightarrow> clientenv \<Rightarrow> clientenv" where
  "wired henv es cenv = cenv\<lparr>transport := \<lambda>net addr rq. case serve henv rq es of None \<Rightarrow> Inl EOF | Some (r, es') \<Rightarrow> Inr r\<rparr>"

lemma wired_fields [simp]:
  "transport (wired henv es cenv) net addr rq = (case serve henv rq es of None \<Rightarrow> Inl EOF | Some (r, es') \<Rightarrow> Inr r)"
  "jsonText (wired henv es cenv) = jsonText cenv" "jsonModules (wired henv es cenv) = jsonModules cenv"
  by (simp_all add: wired_def)



text \<open>
  \<open>rsync-proxy upstream-modules NAME\<close> prints the configured modules of the upstream, one on a line,
  in order, and fails when no upstream has the name. (The JSON decoder reads back what the encoder
  wrote.)
\<close>

theorem modules_command:
  assumes "n \<noteq> []" and "\<And>ms. jsonModules cenv (ModulesBody ms) = Inr ms"
  shows "SendUpstreamModulesRequest (wired henv (err, s) cenv) addr n False =
    (case find_upstream n (supstreams s) of
       None \<Rightarrow> result (Some (Errorf ''failed to get upstream modules'')) [] (jsonText cenv (MessageBody (''unknown upstream: '' @ n)))
     | Some u \<Rightarrow> result None (print_lines (sort (Modules u))) [])"
proof -
  have c: "contains_text (''unknown upstream: '' @ n) ''unknown upstream''"
    using contains_prefix [of "''unknown upstream''" "'': '' @ n"] by simp
  let ?q = "\<lparr>rmethod = ''GET'', rpath = ''/upstream-modules'', rquery = [''name'' \<mapsto> [n]]\<rparr>"
  have h: "upstream_modules_handler henv s ?q err = Some (err,
      case find_upstream n (supstreams s) of
        None \<Rightarrow> reply 404 (MessageBody (''unknown upstream: '' @ n)) | Some u \<Rightarrow> reply 200 (ModulesBody (sort (Modules u))))"
    using assms(1) c
    by (simp add: upstream_modules_handler_def um_parse_def um_lookup_def query_get_def ListUpstreamModules_def del: append_Cons
        split: option.split)
  show ?thesis
    using assms(2) h
    by (auto simp: sorted_sort_id SendUpstreamModulesRequest_def httpGet_def makeHttpClient_def serve_def reply_def split: option.split)
qed

definition demo_client :: clientenv where
  "demo_client = \<lparr>transport = (\<lambda>net addr rq. Inl EOF), jsonText = (\<lambda>b. case b of MessageBody m \<Rightarrow> m | _ \<Rightarrow> []),
     jsonModules = (\<lambda>b. case b of ModulesBody ms \<Rightarrow> Inr ms | _ \<Rightarrow> Inl EOF), jsonStatus = (\<lambda>b. Inl EOF), paint = no_colour,
     dateTime = (\<lambda>t. []), renderTable = (\<lambda>h rows. (None, [])), parseURL = (\<lambda>u. Inl EOF)\<rparr>"

theorem modules_command_witness:
  "SendUpstreamModulesRequest (wired demo_http (None, demo_server) demo_client) ''/run/s'' ''u2'' False =
     result None (''bar'' @ [LF] @ ''foo'' @ [LF]) []"
proof -
  have u: "map_option Modules (find_upstream ''u2'' (supstreams demo_server)) = Some [''bar'', ''foo'']" by code_simp
  have m: "jsonModules demo_client (ModulesBody ms) = Inr ms" for ms by (simp add: demo_client_def)
  have p: "print_lines (sort [''bar'', ''foo'']) = ''bar'' @ [LF] @ ''foo'' @ [LF]" by code_simp
  show ?thesis using modules_command [of "''u2''" demo_client demo_http None demo_server "''/run/s''"] u m p by auto
qed

section \<open>Starting\<close>











end
