(* ===== verification/Spec2Isabelle.thy ===== *)
theory Spec2Isabelle
  imports QueueProps UtilProps RoutingProps DiscoveryProps LoggingProps ServerProps SystemProps Progress AnswerProps CmdProps
begin

text \<open>
  Verification library of rsync-proxy, a reverse proxy for rsync daemons. A client connects, sends
  its version and the module it wants; the proxy looks up the upstreams that serve the module,
  picks one by the client's address, waits for a place in the queue of this upstream, connects,
  and copies bytes both ways. The configuration can be reloaded while clients are connected; a
  second listener answers HTTP requests of the command-line tool and of monitoring.

  \<^bold>\<open>Parts, sources and theories.\<close>

  \<^item> \<open>Prelude\<close>: byte strings, decimal printing, results that may fail (\<open>bindR\<close>), Go maps as association
    lists without repeated keys (\<open>wf_map\<close>), runs of a step relation (\<open>run\<close>) and the collections
    \<open>fault_free\<close> and \<open>inv_pres\<close> that the component proofs use.
  \<^item> \<open>Chan\<close>, \<open>Queue\<close>: \<open>pkg/queue/queue.go\<close>. The record \<open>Queue\<close> is the struct, \<open>qworld\<close> adds the heap
    of channels and handles it refers to. Every method holds the mutex, so it is one function, and
    what Go would answer with a panic or a send that blocks is a value of \<open>go_fault\<close>.
    \<open>QueueSystem\<close> has the calls of all goroutines in any order (\<open>qstep\<close>), an abstract queue
    (\<open>spec_step\<close>) and the simulation between the two; \<open>Admission\<close> states what relays rely on as the
    locale \<open>slot_queue\<close> and interprets it on the queue.
  \<^item> \<open>Net\<close>, \<open>Conn\<close>: \<open>pkg/server/utils.go\<close>. A connection is a script of what the network will do and a
    record of what was done to it. The reading loops are proved for any \<open>byte_source\<close>, a locale
    interpreted on these connections.
  \<^item> \<open>Routing\<close>, \<open>Discovery\<close>: \<open>resolveUpstreams\<close>, \<open>buildModuleTargets\<close>, \<open>chooseTargetByClientIP\<close>,
    \<open>listAllModules\<close> and \<open>discoverModulesFromUpstream\<close> of \<open>pkg/server/server.go\<close>.
  \<^item> \<open>Logging\<close>: \<open>pkg/logging\<close>, over a table of file descriptors.
  \<^item> \<open>Counters\<close>: the counters per upstream and per module, made on first use (locale \<open>lazy_counters\<close>,
    interpreted on both).
  \<^item> \<open>Server\<close>: the struct \<open>Server\<close>, \<open>New\<close>, \<open>pkg/server/config.go\<close> and \<open>loadConfig\<close> with everything it
    calls. Go's pointers to queues are indexes into \<open>qheap\<close>, so that a reload and the relays that
    still hold an old queue see the same object. \<open>ServerInv\<close> has its invariants.
  \<^item> \<open>Relay\<close>: \<open>handleConn\<close> and \<open>relay\<close> as a state machine, cut at every point where the code waits
    (\<open>pc\<close>); \<open>System\<close> is the server with all its relays and reloads interleaved in any order.
    \<open>SystemInv\<close>, \<open>Books\<close> and \<open>Copying\<close> have its invariants: tickets of the queues, counters, bytes.
  \<^item> \<open>Metrics\<close>: \<open>pkg/server/metrics.go\<close> and the list of connections. \<open>Http\<close>: the handlers of
    \<open>runHTTPServer\<close>, with the variable \<open>err\<close> that they share as state. \<open>Lifecycle\<close>: \<open>Listen\<close>, \<open>Close\<close>,
    \<open>runRsyncServer\<close>, \<open>Run\<close>. \<open>Cmd\<close>: \<open>cmd/cmd.go\<close> and \<open>main.go\<close>.

  \<^bold>\<open>What the lemmas show.\<close>

  \<^item> \<open>QueueProps\<close>: the queue refines its abstract specification, serves in the order of arrival and
    admits whoever waits after enough releases; what a change of the limit does not do.
  \<^item> \<open>UtilProps\<close>, \<open>RoutingProps\<close>, \<open>DiscoveryProps\<close>: lines are read whatever the fragmentation, headers
    and listings read back, clients of a network are spread evenly.
  \<^item> \<open>LoggingProps\<close>: no message and no descriptor is lost.
  \<^item> \<open>ServerProps\<close>: loading is all or nothing and keeps the routing invariant, a reload keeps the
    clients of an upstream that stays, TLS is not switched.
  \<^item> \<open>SystemProps\<close>, \<open>Progress\<close>: in any interleaving no relay panics or gets stuck, no upstream has more
    connections than its limit, no slot is lost, the counters and the table of connections are right.
  \<^item> \<open>AnswerProps\<close>, \<open>RelayProps\<close>: what client and upstream are told at each point; bytes are forwarded
    in order, counted exactly, and the copying ends.
  \<^item> \<open>MetricsProps\<close>, \<open>HttpProps\<close>, \<open>LifecycleProps\<close>, \<open>CmdProps\<close>: labels read back and lines cannot be
    forged, only a reload changes the server, listening is all or nothing, and the commands say
    truly what the server did.

  \<^bold>\<open>Bounds.\<close> There is no fuel: every loop of the model ends by a measure, the number of entries left
  in the script of a connection, the number of waiting clients, or the list it goes through. Loops
  over a connection are \<open>partial_function\<close> where the script alone decides, and are proved to return.
  The scripts are finite: a peer that sends for ever is represented by its prefixes. Integers that
  can overflow are words: the hash and the connection index have 32 bits, the counters 64; Go's
  \<open>int\<close> for lengths and limits is \<open>int\<close>, as no list of \<open>2^63\<close> entries exists. Statements about the table
  of connections are for fewer than \<open>2^32\<close> arrivals, after which an index can be taken twice; the
  choice of a target is stated for fewer than \<open>2^32\<close> targets.

  \<^bold>\<open>Parameters.\<close> What is not code of the repository is an argument: the TOML decoder, the key pair
  loader, the resolvers and dialers, the file system's answers, \<open>net/http\<close>, \<open>encoding/json\<close>, the URL
  parser, \<open>%q\<close>, the rendering of times and of floating-point seconds, the collector of process
  metrics, cobra's parsing of the command line, colours and the table writer.

  \<^bold>\<open>Not modelled.\<close> One round of \<open>io.Copy\<close> (a read and the write of what it got) is one step, so the
  case of one connection being closed by the other goroutine between the two is represented by the
  two orders of whole steps; a write waits for the peer without a bound, so copying ends in its own
  steps and not in time. The reads behind one page of metrics are taken at one instant, while the code
  takes a new snapshot for each section. A listener does not say what became of the file of a
  Unix socket. The prefix of log lines (date, time, source position) and the flag parsing,
  help texts and wiring of the cobra commands are left out, as are tests and the example files.
\<close>

end
